theory Spec2Isabelle
  imports Main
begin

text \<open>
  A model of the content-generation application: the route \<^verbatim>\<open>POST /api/generate\<close> of
  \<^verbatim>\<open>backend/routes/generate.js\<close> (keyword extraction, image sourcing, text generation
  with retries, the request handler) and the draft and version history of the client
  component \<^verbatim>\<open>frontend/src/app/app.component.ts\<close>. Functions keep the names they have
  in the source. The text provider, the photo provider and the clock are parameters; what
  the route does to them is recorded as a list of events.
\<close>

section \<open>Strings\<close>

text \<open>
  A JavaScript string is modelled as a \<^typ>\<open>string\<close>: each \<^typ>\<open>char\<close> stands for
  one code unit below 256 (the Latin-1 range). The character classes of the regular
  expressions \<^verbatim>\<open>\w\<close> and \<^verbatim>\<open>\s\<close> and the case mapping of
  \<^verbatim>\<open>toLowerCase\<close> are written out for that range.
\<close>

definition isSpace :: "char \<Rightarrow> bool" where
  \<comment> \<open>\<^verbatim>\<open>\s\<close>: TAB, LF, VT, FF, CR, SPACE and NBSP; \<^verbatim>\<open>trim()\<close> strips the same set\<close>
  "isSpace c = ((of_char c :: nat) \<in> {9, 10, 11, 12, 13, 32, 160})"

definition isWordChar :: "char \<Rightarrow> bool" where
  \<comment> \<open>\<^verbatim>\<open>\w\<close> is \<^verbatim>\<open>[A-Za-z0-9_]\<close>\<close>
  "isWordChar c =
     (let n = (of_char c :: nat)
      in (65 \<le> n \<and> n \<le> 90) \<or> (97 \<le> n \<and> n \<le> 122) \<or> (48 \<le> n \<and> n \<le> 57) \<or> n = 95)"

definition lowerChar :: "char \<Rightarrow> char" where
  \<comment> \<open>A-Z and the Latin-1 capitals (all of 0xC0-0xDE but the multiplication sign) move up by 32\<close>
  "lowerChar c =
     (let n = (of_char c :: nat)
      in if (65 \<le> n \<and> n \<le> 90) \<or> (192 \<le> n \<and> n \<le> 222 \<and> n \<noteq> 215)
         then char_of (n + 32) else c)"

definition toLowerCase :: "string \<Rightarrow> string" where
  "toLowerCase s = map lowerChar s"

definition stripNonWord :: "string \<Rightarrow> string" where
  \<comment> \<open>\<^verbatim>\<open>.replace(/[^\w\s]/g, '')\<close>\<close>
  "stripNonWord s = filter (\<lambda>c. isWordChar c \<or> isSpace c) s"

text \<open>
  \<^verbatim>\<open>s.split(/\s+/)\<close>: the string is cut at every maximal run of white space. A string
  with no white space (the empty string too) gives the one-element array of itself;
  white space at the start gives a first piece \<open>''''\<close> and white space at the end a last
  piece \<open>''''\<close>.
\<close>

function splitWs :: "string \<Rightarrow> string list" where
  "splitWs s =
     (case dropWhile (\<lambda>c. \<not> isSpace c) s of
        [] \<Rightarrow> [s]
      | _ # rest \<Rightarrow> takeWhile (\<lambda>c. \<not> isSpace c) s # splitWs (dropWhile isSpace rest))"
  by pat_completeness auto
termination
proof (relation "measure length")
  show "wf (measure length)" by simp
next
  fix s :: string and x rest
  assume d: "dropWhile (\<lambda>c. \<not> isSpace c) s = x # rest"
  have "length (dropWhile isSpace rest) \<le> length rest"
    by (rule length_dropWhile_le)
  also have "length rest < length (dropWhile (\<lambda>c. \<not> isSpace c) s)"
    by (simp add: d)
  also have "\<dots> \<le> length s"
    by (rule length_dropWhile_le)
  finally show "(dropWhile isSpace rest, s) \<in> measure length" by simp
qed

declare splitWs.simps [simp del]

fun str_includes :: "string \<Rightarrow> string \<Rightarrow> bool" where
  \<comment> \<open>\<^verbatim>\<open>s.includes(sub)\<close>: \<open>sub\<close> occurs in \<open>s\<close> as a contiguous substring\<close>
  "str_includes [] sub = (sub = [])"
| "str_includes (c # cs) sub = (take (length sub) (c # cs) = sub \<or> str_includes cs sub)"

section \<open>Keyword extraction\<close>

definition stopWords :: "string list" where
  "stopWords =
   [''the'', ''a'', ''an'', ''and'', ''or'', ''but'', ''in'', ''on'', ''at'', ''to'',
    ''for'', ''of'', ''with'', ''by'', ''from'', ''as'', ''is'', ''was'', ''are'',
    ''were'', ''been'', ''be'', ''have'', ''has'', ''had'', ''do'', ''does'', ''did'',
    ''will'', ''would'', ''could'', ''should'', ''may'', ''might'', ''can'', ''this'',
    ''that'', ''these'', ''those'', ''i'', ''you'', ''he'', ''she'', ''it'', ''we'',
    ''they'', ''what'', ''which'', ''who'', ''when'', ''where'', ''why'', ''how'',
    ''all'', ''each'', ''every'', ''both'', ''few'', ''more'', ''most'', ''other'',
    ''some'', ''such'', ''no'', ''nor'', ''not'', ''only'', ''own'', ''same'', ''so'',
    ''than'', ''too'', ''very'', ''just'', ''about'', ''write'', ''create'', ''make'',
    ''generate'', ''content'', ''article'', ''blog'', ''post'', ''essay'', ''email'',
    ''script'', ''ad'', ''seo'', ''social'']"

definition promptWords :: "string \<Rightarrow> string list" where
  \<comment> \<open>the constant \<^verbatim>\<open>words\<close> of \<^verbatim>\<open>extractKeywordsSimple\<close>\<close>
  "promptWords prompt =
     filter (\<lambda>w. length w > 3 \<and> w \<notin> set stopWords)
       (splitWs (stripNonWord (toLowerCase prompt)))"

text \<open>
  \<^verbatim>\<open>[...new Set(words)]\<close> keeps the first occurrence of every word, in insertion order.
\<close>

fun uniqueFrom :: "string list \<Rightarrow> string list \<Rightarrow> string list" where
  "uniqueFrom seen [] = []"
| "uniqueFrom seen (w # ws) =
     (if w \<in> set seen then uniqueFrom seen ws else w # uniqueFrom (w # seen) ws)"

definition sortByLengthDesc :: "string list \<Rightarrow> string list" where
  \<comment> \<open>\<^verbatim>\<open>.sort((a, b) => b.length - a.length)\<close>; the sort of arrays is stable\<close>
  "sortByLengthDesc ws = sort_key (\<lambda>w. - int (length w)) ws"

definition uniqueWords :: "string \<Rightarrow> string list" where
  "uniqueWords prompt = sortByLengthDesc (uniqueFrom [] (promptWords prompt))"

definition fallbackKeywords :: "string list" where
  "fallbackKeywords = [''professional'', ''business'', ''content'']"

definition extractKeywordsSimple :: "string \<Rightarrow> string option \<Rightarrow> string list" where
  \<comment> \<open>the second argument is \<^verbatim>\<open>contentType\<close> (\<open>None\<close> when undefined); the body never reads it\<close>
  "extractKeywordsSimple prompt contentType =
     (let keywords = take 3 (uniqueWords prompt)
      in if length keywords > 0 then keywords else fallbackKeywords)"

definition extractImageKeywords :: "string \<Rightarrow> string option \<Rightarrow> string \<Rightarrow> string list" where
  "extractImageKeywords prompt contentType generatedContent =
     extractKeywordsSimple prompt contentType"

section \<open>The environment of a request\<close>

text \<open>
  The two providers and the clock are parameters. An \<open>event\<close> is one effect of the
  route that leaves the process or suspends it: a \<^verbatim>\<open>generateContent\<close> call on a model, a
  search request to the photo provider, a \<^verbatim>\<open>setTimeout\<close> wait.
\<close>

datatype event =
    GenerateContent string  \<comment> \<open>model name\<close>
  | Sleep nat  \<comment> \<open>milliseconds\<close>
  | UnsplashSearch string  \<comment> \<open>keyword\<close>

record genError =
  status :: "nat option"
  message :: "string option"

datatype genOutcome =
    Text string  \<comment> \<open>\<^verbatim>\<open>response.text()\<close> returned\<close>
  | Rejects genError  \<comment> \<open>something in the \<^verbatim>\<open>try\<close> block threw\<close>

datatype unsplashReply =
    FetchRejected  \<comment> \<open>\<^verbatim>\<open>fetch\<close> threw\<close>
  | NotOk  \<comment> \<open>\<^verbatim>\<open>response.ok\<close> is false\<close>
  | BodyRejected  \<comment> \<open>\<^verbatim>\<open>response.json()\<close> or the path to \<^verbatim>\<open>urls.regular\<close> threw\<close>
  | Results "string list"  \<comment> \<open>the \<^verbatim>\<open>urls.regular\<close> of \<^verbatim>\<open>data.results\<close>, \<open>[]\<close> when absent\<close>

record env =
  unsplashAccessKey :: "string option"  \<comment> \<open>\<^verbatim>\<open>process.env.VITE_UNSPLASH_ACCESS_KEY\<close>\<close>
  generateContent :: "string \<Rightarrow> nat \<Rightarrow> genOutcome"
    \<comment> \<open>the outcome of attempt number \<open>n\<close> (from 0) on a model, for the request's composed prompt\<close>
  unsplashSearch :: "string \<Rightarrow> unsplashReply"
  now :: nat  \<comment> \<open>\<^verbatim>\<open>Date.now()\<close>\<close>

definition falsy :: "string option \<Rightarrow> bool" where
  \<comment> \<open>\<^verbatim>\<open>!x\<close> for a value that is undefined or a string\<close>
  "falsy x = (case x of None \<Rightarrow> True | Some s \<Rightarrow> s = [])"

text \<open>
  A value that the JSON body of a request can carry in a field. The route does not check
  the type of the prompt: it tests its truth value, hands it to the text provider inside
  the composed prompt, and calls string methods on it only in the keyword extraction.
\<close>

datatype jsValue =
    JString string
  | JNumber int  \<comment> \<open>an integer; a fraction is truthy like every number but 0\<close>
  | JBool bool
  | JNull
  | JObject  \<comment> \<open>an array or an object\<close>

fun truthy :: "jsValue \<Rightarrow> bool" where
  "truthy (JString s) = (s \<noteq> [])"
| "truthy (JNumber n) = (n \<noteq> 0)"
| "truthy (JBool b) = b"
| "truthy JNull = False"
| "truthy JObject = True"

section \<open>Image sourcing\<close>

record imageResult =
  url :: string
  source :: string

fun searchEach :: "(string \<Rightarrow> unsplashReply) \<Rightarrow> string list \<Rightarrow> event list \<times> imageResult list" where
  "searchEach search [] = ([], [])"
| "searchEach search (keyword # keywords) =
     (let (evs, images) = searchEach search keywords
      in (UnsplashSearch keyword # evs,
          (case search keyword of
             Results (imageUrl # _) \<Rightarrow> \<lparr>url = imageUrl, source = ''unsplash''\<rparr> # images
           | _ \<Rightarrow> images)))"

definition fetchUnsplashImages :: "env \<Rightarrow> string list \<Rightarrow> event list \<times> imageResult list option" where
  "fetchUnsplashImages e keywords =
     (if falsy (unsplashAccessKey e) then ([], None)
      else (let (evs, images) = searchEach (unsplashSearch e) keywords
            in (evs, if length images > 0 then Some images else None)))"

definition digitChar :: "nat \<Rightarrow> char" where
  "digitChar d = char_of (48 + d)"

function showNat :: "nat \<Rightarrow> string" where
  \<comment> \<open>a template literal renders a non-negative integer in decimal\<close>
  "showNat n = (if n < 10 then [digitChar n] else showNat (n div 10) @ [digitChar (n mod 10)])"
  by pat_completeness auto
termination
  by (relation "measure id") auto

declare showNat.simps [simp del]

definition picsumUrl :: "nat \<Rightarrow> nat \<Rightarrow> string" where
  "picsumUrl imageId cacheBuster =
     ''https://picsum.photos/800/600?random='' @ showNat imageId @ ''&t='' @ showNat cacheBuster"

function padPicsum :: "nat \<Rightarrow> imageResult list \<Rightarrow> imageResult list" where
  \<comment> \<open>\<^verbatim>\<open>while (imageResults.length < 3)\<close>\<close>
  "padPicsum baseTime imageResults =
     (if length imageResults < 3 then
        (let index = length imageResults;
             imageId = ((baseTime + index * 100) mod 1000) + 1;
             cacheBuster = baseTime + index
         in padPicsum baseTime
              (imageResults @ [\<lparr>url = picsumUrl imageId cacheBuster, source = ''stock''\<rparr>]))
      else imageResults)"
  by pat_completeness auto
termination
  by (relation "measure (\<lambda>(baseTime, imageResults). 3 - length imageResults)") auto

declare padPicsum.simps [simp del]

record imageSuggestions =
  images :: "string list"
  tags :: "string list"

definition finalFallback :: imageSuggestions where
  \<comment> \<open>the result of the \<^verbatim>\<open>catch\<close> block\<close>
  "finalFallback =
     \<lparr>images = [''https://picsum.photos/800/600?random=1'',
                ''https://picsum.photos/800/600?random=2'',
                ''https://picsum.photos/800/600?random=3''],
      tags = [''stock'', ''stock'', ''stock'']\<rparr>"

text \<open>
  The body of \<^verbatim>\<open>generateImageSuggestions\<close> is a \<^verbatim>\<open>try\<close> block with a \<^verbatim>\<open>catch\<close> that returns
  a fixed result. The first statement of the block extracts the keywords, which starts
  with \<^verbatim>\<open>prompt.toLowerCase()\<close>: on a prompt that is not a string this throws a
  \<^verbatim>\<open>TypeError\<close> (no other JSON value has that method), before any search is made, and the
  \<^verbatim>\<open>catch\<close> returns \<^const>\<open>finalFallback\<close>. On a string nothing in the block throws: the
  string methods are defined on every string, and every failure of a search is caught for
  its keyword inside \<^verbatim>\<open>fetchUnsplashImages\<close>. The keyword functions are therefore
  functions of a string, and the two branches below are the \<^verbatim>\<open>try\<close> block that runs to its
  end and the \<^verbatim>\<open>catch\<close>.
\<close>

definition generateImageSuggestions ::
  "env \<Rightarrow> jsValue \<Rightarrow> string option \<Rightarrow> string \<Rightarrow> event list \<times> imageSuggestions" where
  "generateImageSuggestions e prompt contentType generatedContent =
     (case prompt of
        JString promptText \<Rightarrow>
          (let keywords = extractImageKeywords promptText contentType generatedContent;
               (evs, unsplashImages) = fetchUnsplashImages e (take 3 keywords);
               imageResults =
                 (case unsplashImages of
                    Some found \<Rightarrow> if length found > 0 then found else []
                  | None \<Rightarrow> []);
               baseTime = now e;
               picumCount = 3 - int (length imageResults);
               imageResults =
                 (if picumCount > 0 then padPicsum baseTime imageResults else imageResults)
           in (evs, \<lparr>images = map url (take 3 imageResults),
                      tags = map source (take 3 imageResults)\<rparr>))
      | _ \<Rightarrow> ([], finalFallback))"

section \<open>Text generation with model fallback\<close>

definition isRateLimit :: "genError \<Rightarrow> bool" where
  "isRateLimit err =
     (status err = Some 429
      \<or> (case message err of Some m \<Rightarrow> str_includes m ''quota'' | None \<Rightarrow> False)
      \<or> (case message err of Some m \<Rightarrow> str_includes m ''429'' | None \<Rightarrow> False))"

text \<open>
  The inner loop over the attempts on one model. The result \<open>Some text\<close> is the
  \<^verbatim>\<open>return\<close> inside the loop; \<open>None\<close> means that the loop was left (by \<^verbatim>\<open>break\<close> or
  because the attempts are used up) and the next model is due.
\<close>

function tryModel :: "(string \<Rightarrow> nat \<Rightarrow> genOutcome) \<Rightarrow> nat \<Rightarrow> string \<Rightarrow> nat \<Rightarrow> event list \<times> string option" where
  "tryModel call maxRetries modelName attempt =
     (if attempt < maxRetries then
        (case call modelName attempt of
           Text t \<Rightarrow> ([GenerateContent modelName], Some t)
         | Rejects err \<Rightarrow>
             if isRateLimit err then
               (let (evs, r) = tryModel call maxRetries modelName (attempt + 1)
                in (GenerateContent modelName
                      # (if attempt < maxRetries - 1 then [Sleep (2000 * (attempt + 1))] else [])
                      @ evs, r))
             else if status err = Some 404 then ([GenerateContent modelName], None)
             else
               (let (evs, r) = tryModel call maxRetries modelName (attempt + 1)
                in (GenerateContent modelName
                      # (if attempt < maxRetries - 1 then [Sleep (1000 * (attempt + 1))] else [])
                      @ evs, r)))
      else ([], None))"
  by pat_completeness auto
termination
  by (relation "measure (\<lambda>(call, maxRetries, modelName, attempt). maxRetries - attempt)") auto

declare tryModel.simps [simp del]

datatype jsError = Error string

definition exhausted :: jsError where
  "exhausted = Error (''All models failed after retries. Free tier quota may be exceeded. ''
     @ ''Please check your API billing at https://ai.google.dev/'')"

fun tryModels :: "(string \<Rightarrow> nat \<Rightarrow> genOutcome) \<Rightarrow> nat \<Rightarrow> string list \<Rightarrow> event list \<times> (jsError + string)" where
  "tryModels call maxRetries [] = ([], Inl exhausted)"
| "tryModels call maxRetries (modelName # rest) =
     (case tryModel call maxRetries modelName 0 of
        (evs, Some t) \<Rightarrow> (evs, Inr t)
      | (evs, None) \<Rightarrow>
          (let (evs', r) = tryModels call maxRetries rest in (evs @ evs', r)))"

definition models :: "string list" where
  "models = [''gemini-2.5-flash'']"

definition generateWithRetry :: "(string \<Rightarrow> nat \<Rightarrow> genOutcome) \<Rightarrow> nat \<Rightarrow> event list \<times> (jsError + string)" where
  "generateWithRetry call maxRetries = tryModels call maxRetries models"

section \<open>The request handler\<close>

text \<open>
  The body of a request; a field that is absent is \<open>None\<close>. The prompt is any JSON value,
  since the handler lets every truthy value through. The other fields have the types of
  the API documentation and of the client's \<^verbatim>\<open>GenerateRequest\<close>.
\<close>

record request =
  req_prompt :: "jsValue option"
  req_tone :: "string option"
  req_wordCount :: "nat option"
  req_contentType :: "string option"
  req_platform :: "string option"

record body =
  content :: string
  wordCount :: nat
  platform :: string
  body_images :: "string list"
  imageTypes :: "string list"

datatype response =
    Status400 string  \<comment> \<open>\<^verbatim>\<open>{error}\<close>\<close>
  | Status200 body
  | Status500 string  \<comment> \<open>\<^verbatim>\<open>{error}\<close>\<close>

definition failureMessage :: "jsError \<Rightarrow> string" where
  "failureMessage err =
     (case err of Error msg \<Rightarrow>
        ''Failed to generate content. ''
        @ (if str_includes msg ''quota''
           then ''Free tier quota exceeded. Please upgrade your plan at https://ai.google.dev/''
           else msg))"

text \<open>
  The handler of \<^verbatim>\<open>POST /api/generate\<close>. The composed prompt goes unchanged to every
  \<^verbatim>\<open>generateContent\<close> call and only the provider reads it, so it is part of the
  parameter \<^const>\<open>generateContent\<close>. The handler calls \<^verbatim>\<open>generateWithRetry\<close> with one
  argument, so \<^verbatim>\<open>maxRetries\<close> is its default 2. The only statement of the handler that
  throws is that call, when every attempt has failed; the outer \<^verbatim>\<open>catch\<close> turns it into the
  500 response. The inner \<^verbatim>\<open>try\<close> around the image sourcing never catches anything, since
  \<^const>\<open>generateImageSuggestions\<close> catches what is thrown inside it and returns a value.
\<close>

definition handler :: "env \<Rightarrow> request \<Rightarrow> event list \<times> response" where
  "handler e req =
     (case req_prompt req of
        None \<Rightarrow> ([], Status400 ''Prompt is required'')
      | Some prompt \<Rightarrow>
          if \<not> truthy prompt then ([], Status400 ''Prompt is required'')
          else
            (case generateWithRetry (generateContent e) 2 of
               (evs, Inl err) \<Rightarrow> (evs, Status500 (failureMessage err))
             | (evs, Inr text) \<Rightarrow>
                 (let (evs', imageResult) =
                        generateImageSuggestions e prompt (req_contentType req) text;
                      imageUrls = images imageResult;
                      imageTags = tags imageResult
                  in (evs @ evs',
                      Status200
                        \<lparr>content = text,
                         wordCount = length (splitWs text),
                         platform = (case req_platform req of
                                       None \<Rightarrow> ''standard''
                                     | Some p \<Rightarrow> if p = [] then ''standard'' else p),
                         body_images = imageUrls,
                         imageTypes = (if length imageTags > 0 then imageTags else [])\<rparr>))))"

section \<open>The client's draft and version history\<close>

datatype contentStatus = Draft | Approved | Rejected

record contentVersion =
  cv_content :: string
  timestamp :: nat  \<comment> \<open>the \<^verbatim>\<open>Date\<close> of the entry, in milliseconds\<close>

record appState =
  app_prompt :: string
  generatedContent :: string
  actualWordCount :: nat
  isLoading :: bool
  app_error :: string
  app_contentStatus :: contentStatus
  isEditing :: bool
  editableContent :: string
  contentHistory :: "contentVersion list"
  currentVersion :: nat
  contentImages :: "string list"

definition initialState :: appState where
  \<comment> \<open>the field initialisers of \<^verbatim>\<open>AppComponent\<close>\<close>
  "initialState =
     \<lparr>app_prompt = [], generatedContent = [], actualWordCount = 0, isLoading = False,
      app_error = [], app_contentStatus = Draft, isEditing = False, editableContent = [],
      contentHistory = [], currentVersion = 0, contentImages = []\<rparr>"

definition trim :: "string \<Rightarrow> string" where
  "trim s = rev (dropWhile isSpace (rev (dropWhile isSpace s)))"

definition addToHistory :: "nat \<Rightarrow> string \<Rightarrow> appState \<Rightarrow> appState" where
  \<comment> \<open>\<^verbatim>\<open>unshift\<close> puts the new entry at index 0; the first argument is \<^verbatim>\<open>new Date()\<close>\<close>
  "addToHistory date c s =
     s\<lparr>contentHistory := \<lparr>cv_content = c, timestamp = date\<rparr> # contentHistory s,
       currentVersion := 0\<rparr>"

definition generate_next :: "body \<Rightarrow> nat \<Rightarrow> appState \<Rightarrow> appState" where
  \<comment> \<open>the \<^verbatim>\<open>next\<close> callback of \<^verbatim>\<open>generate\<close>: the 200 response has arrived\<close>
  "generate_next resp date s =
     (addToHistory date (content resp)
        (s\<lparr>generatedContent := content resp,
           actualWordCount := wordCount resp,
           app_contentStatus := Draft,
           contentImages := body_images resp\<rparr>))
     \<lparr>isLoading := False\<rparr>"

definition generate :: "body \<Rightarrow> nat \<Rightarrow> appState \<Rightarrow> appState" where
  \<comment> \<open>\<^verbatim>\<open>generate()\<close> followed by the arrival of the 200 response \<open>resp\<close> at time \<open>date\<close>\<close>
  "generate resp date s =
     (if trim (app_prompt s) = [] then s\<lparr>app_error := ''Please enter a prompt''\<rparr>
      else generate_next resp date
             (s\<lparr>isLoading := True, app_error := [], generatedContent := [],
                actualWordCount := 0\<rparr>))"

definition approveContent :: "appState \<Rightarrow> appState" where
  "approveContent s = s\<lparr>app_contentStatus := Approved\<rparr>"

definition rejectContent :: "appState \<Rightarrow> appState" where
  "rejectContent s =
     s\<lparr>app_contentStatus := Rejected, generatedContent := [], contentHistory := []\<rparr>"

definition startEditing :: "appState \<Rightarrow> appState" where
  "startEditing s = s\<lparr>isEditing := True, editableContent := generatedContent s\<rparr>"

definition saveEdit :: "nat \<Rightarrow> appState \<Rightarrow> appState" where
  "saveEdit date s =
     (addToHistory date (editableContent s)
        (s\<lparr>generatedContent := editableContent s,
           actualWordCount := length (splitWs (editableContent s))\<rparr>))
     \<lparr>isEditing := False, app_contentStatus := Draft\<rparr>"

definition cancelEdit :: "appState \<Rightarrow> appState" where
  "cancelEdit s = s\<lparr>isEditing := False, editableContent := []\<rparr>"

text \<open>
  The user's actions on the component. \<open>Generate\<close> and \<open>SaveEdit\<close> carry the time at
  which the new version is stored; \<open>TypePrompt\<close> and \<open>TypeEdit\<close> are the two-way bindings of
  the prompt field and of the editor.
\<close>

datatype action =
    TypePrompt string
  | Generate body nat
  | Approve
  | Reject
  | StartEditing
  | TypeEdit string
  | SaveEdit nat
  | CancelEdit

fun step :: "appState \<Rightarrow> action \<Rightarrow> appState" where
  "step s (TypePrompt p) = s\<lparr>app_prompt := p\<rparr>"
| "step s (Generate resp date) = generate resp date s"
| "step s Approve = approveContent s"
| "step s Reject = rejectContent s"
| "step s StartEditing = startEditing s"
| "step s (TypeEdit t) = s\<lparr>editableContent := t\<rparr>"
| "step s (SaveEdit date) = saveEdit date s"
| "step s CancelEdit = cancelEdit s"

definition run :: "appState \<Rightarrow> action list \<Rightarrow> appState" where
  "run s acts = foldl step s acts"

fun storesVersion :: "action \<Rightarrow> bool" where
  "storesVersion (Generate resp date) = True"
| "storesVersion (SaveEdit date) = True"
| "storesVersion _ = False"

fun storedAt :: "action \<Rightarrow> nat" where
  "storedAt (Generate resp date) = date"
| "storedAt (SaveEdit date) = date"
| "storedAt _ = 0"

section \<open>Notions of the specification\<close>

text \<open>
  The characters the specification speaks of, listed one by one: the letters, the digits,
  and the white space of the regular expressions (TAB, LF, VT, FF, CR, SPACE, NBSP).
  Lower-casing replaces a capital letter by the small letter at the same place of the
  alphabet and leaves every other character as it is. A word character is a letter, a
  digit or the underscore.
\<close>

definition upperLetters :: string where
  "upperLetters = ''ABCDEFGHIJKLMNOPQRSTUVWXYZ''"

definition lowerLetters :: string where
  "lowerLetters = ''abcdefghijklmnopqrstuvwxyz''"

definition decimalDigits :: string where
  "decimalDigits = ''0123456789''"

definition whiteSpaceChars :: string where
  "whiteSpaceChars = [CHR 0x09, CHR 0x0A, CHR 0x0B, CHR 0x0C, CHR 0x0D, CHR 0x20, CHR 0xA0]"

definition isWhiteSpace :: "char \<Rightarrow> bool" where
  "isWhiteSpace c = (c \<in> set whiteSpaceChars)"

definition lowerCaseOf :: "char \<Rightarrow> char" where
  "lowerCaseOf c = (case map_of (zip upperLetters lowerLetters) c of Some l \<Rightarrow> l | None \<Rightarrow> c)"

definition wordOrSpace :: "char \<Rightarrow> bool" where
  "wordOrSpace c =
     (c \<in> set upperLetters \<or> c \<in> set lowerLetters \<or> c \<in> set decimalDigits \<or> c = CHR ''_''
      \<or> isWhiteSpace c)"

definition keywordChars :: string where
  \<comment> \<open>what a keyword taken from a prompt is made of: small letters, digits, the underscore\<close>
  "keywordChars = lowerLetters @ decimalDigits @ ''_''"

text \<open>
  The white-space separated tokens of a string: its maximal runs of characters that are
  not white space. The definition reads the string once, left to right, and does not use
  \<^const>\<open>splitWs\<close>.
\<close>

fun tokensFrom :: "string \<Rightarrow> string \<Rightarrow> string list" where
  "tokensFrom cur [] = (if cur = [] then [] else [cur])"
| "tokensFrom cur (c # cs) =
     (if isWhiteSpace c then (if cur = [] then tokensFrom [] cs else cur # tokensFrom [] cs)
      else tokensFrom (cur @ [c]) cs)"

definition whitespaceTokens :: "string \<Rightarrow> string list" where
  "whitespaceTokens s = tokensFrom [] s"

text \<open>
  The candidates for keywords, in the words of the specification: lower-case the prompt,
  strip every character that is neither a word character nor white space, split on white
  space, drop the tokens of length at most 3 and the stop words. None of the string
  functions of the route is used here.
\<close>

definition keywordCandidates :: "string \<Rightarrow> string list" where
  "keywordCandidates prompt =
     filter (\<lambda>w. \<not> (length w \<le> 3 \<or> w \<in> set stopWords))
       (whitespaceTokens (filter wordOrSpace (map lowerCaseOf prompt)))"

text \<open>
  The placeholder of slot \<open>index\<close>, by the formula of the specification: the image id is
  \<open>((baseTime + index * 100) mod 1000) + 1\<close> and the cache-busting parameter is
  \<open>baseTime + index\<close>.
\<close>

definition placeholder :: "nat \<Rightarrow> nat \<Rightarrow> imageResult" where
  "placeholder baseTime index =
     \<lparr>url = picsumUrl (((baseTime + index * 100) mod 1000) + 1) (baseTime + index),
      source = ''stock''\<rparr>"

text \<open>
  The photos the provider supplies for a list of keywords, in keyword order: the first
  result of every search that succeeds with a result, when a credential is configured.
\<close>

fun firstResult :: "unsplashReply \<Rightarrow> string option" where
  "firstResult (Results (imageUrl # _)) = Some imageUrl"
| "firstResult _ = None"

definition unsplashHits :: "env \<Rightarrow> string list \<Rightarrow> string list" where
  "unsplashHits e keywords =
     (if falsy (unsplashAccessKey e) then []
      else List.map_filter (\<lambda>k. firstResult (unsplashSearch e k)) keywords)"

text \<open>
  The classes of a failed call, as the \<^verbatim>\<open>catch\<close> block of \<^verbatim>\<open>generateWithRetry\<close> tells
  them apart: the test for a rate limit comes first, so an error is treated as not-found
  when its status is 404 and it is no rate-limit error. The base delay of the wait is 2000
  for a rate-limit error and 1000 for every other error that is retried.
\<close>

definition isNotFound :: "genError \<Rightarrow> bool" where
  "isNotFound err = (\<not> isRateLimit err \<and> status err = Some 404)"

definition baseDelayMs :: "genError \<Rightarrow> nat" where
  "baseDelayMs err = (if isRateLimit err then 2000 else 1000)"

text \<open>Counting the calls to the text provider among the events.\<close>

fun isCall :: "event \<Rightarrow> bool" where
  "isCall (GenerateContent modelName) = True"
| "isCall _ = False"

text \<open>
  The linear schedule on one model when every attempt fails and is retried: each attempt
  is a call, followed, when an attempt remains, by a wait of the base delay times
  \<open>attempt + 1\<close>.
\<close>

definition failedAttempts :: "(string \<Rightarrow> nat \<Rightarrow> genError) \<Rightarrow> nat \<Rightarrow> string \<Rightarrow> event list" where
  "failedAttempts errs maxRetries modelName =
     concat (map (\<lambda>attempt. GenerateContent modelName
                    # (if attempt + 1 < maxRetries
                       then [Sleep (baseDelayMs (errs modelName attempt) * (attempt + 1))]
                       else []))
               [0..<maxRetries])"

text \<open>
  The actions that neither reset the history (\<open>Reject\<close>) nor blank the prompt, without
  which a generate sends no request.
\<close>

fun keepsHistory :: "action \<Rightarrow> bool" where
  "keepsHistory Reject = False"
| "keepsHistory (TypePrompt p) = (trim p \<noteq> [])"
| "keepsHistory _ = True"

section \<open>Example inputs\<close>

text \<open>Errors of the text provider, as its client library reports them.\<close>

definition notFoundError :: genError where
  "notFoundError = \<lparr>status = Some 404, message = Some ''models/gemini-2.0-flash is not found''\<rparr>"

definition overloadedError :: genError where
  "overloadedError = \<lparr>status = Some 503, message = Some ''The model is overloaded''\<rparr>"

definition quotaError :: genError where
  "quotaError = \<lparr>status = Some 429, message = Some ''You exceeded your current quota''\<rparr>"

text \<open>
  The request of the specification's example scenario; an environment with no image
  credential whose text provider answers at once with \<open>reply\<close>; one with a credential
  whose photo provider has a result for one keyword; and one with a credential whose photo
  provider is unreachable.
\<close>

definition exampleRequest :: request where
  "exampleRequest =
     \<lparr>req_prompt = Some (JString ''Write about AI in healthcare''), req_tone = Some ''professional'',
      req_wordCount = Some 500, req_contentType = Some ''article'',
      req_platform = Some ''linkedin''\<rparr>"

definition exampleEnv :: "string \<Rightarrow> env" where
  "exampleEnv reply =
     \<lparr>unsplashAccessKey = None,
      generateContent = (\<lambda>modelName attempt. Text reply),
      unsplashSearch = (\<lambda>keyword. FetchRejected),
      now = 1700000000950\<rparr>"

definition unsplashEnv :: "string \<Rightarrow> env" where
  "unsplashEnv reply =
     \<lparr>unsplashAccessKey = Some ''unsplash-access-key'',
      generateContent = (\<lambda>modelName attempt. Text reply),
      unsplashSearch =
        (\<lambda>keyword. if keyword = ''healthcare''
                   then Results [''https://images.unsplash.com/photo-1'']
                   else NotOk),
      now = 1700000000950\<rparr>"

definition failingEnv :: "string \<Rightarrow> env" where
  \<comment> \<open>a credential is configured and every search fails\<close>
  "failingEnv reply =
     \<lparr>unsplashAccessKey = Some ''unsplash-access-key'',
      generateContent = (\<lambda>modelName attempt. Text reply),
      unsplashSearch = (\<lambda>keyword. FetchRejected),
      now = 1700000000950\<rparr>"

text \<open>A 200 response with the given content, and the component after a prompt was typed.\<close>

definition exampleBody :: "string \<Rightarrow> body" where
  "exampleBody t =
     \<lparr>content = t, wordCount = length (splitWs t), platform = ''standard'',
      body_images = [], imageTypes = []\<rparr>"

definition typedPrompt :: appState where
  "typedPrompt = initialState\<lparr>app_prompt := ''Write about AI in healthcare''\<rparr>"

section \<open>Properties of the string functions\<close>

text \<open>
  The character classes of the route, given by character codes, are the classes of the
  specification, given by lists of characters; and lower-casing followed by stripping
  gives the same string in both.
\<close>

lemma mem_by_code:
  assumes "map of_char cs = (ns :: nat list)"
  shows "(c \<in> set cs) = ((of_char c :: nat) \<in> set ns)"
proof -
  have "(c \<in> set cs) = ((of_char c :: nat) \<in> of_char ` set cs)"
    by (rule inj_image_mem_iff [symmetric]) (simp add: inj_on_def)
  then show ?thesis
    using assms by (metis set_map)
qed

lemma upperLetters_codes: "map of_char upperLetters = [65..<91::nat]"
  by (simp add: upperLetters_def upt_conv_Cons)

lemma lowerLetters_codes: "map of_char lowerLetters = [97..<123::nat]"
  by (simp add: lowerLetters_def upt_conv_Cons)

lemma decimalDigits_codes: "map of_char decimalDigits = [48..<58::nat]"
  by (simp add: decimalDigits_def upt_conv_Cons)

lemma whiteSpaceChars_codes: "map of_char whiteSpaceChars = [9, 10, 11, 12, 13, 32, 160 :: nat]"
  by (simp add: whiteSpaceChars_def)

lemma upperLetters_range:
  "(c \<in> set upperLetters) = (65 \<le> (of_char c :: nat) \<and> (of_char c :: nat) \<le> 90)"
proof -
  have "(c \<in> set upperLetters) = ((of_char c :: nat) \<in> set [65..<91])"
    by (rule mem_by_code [OF upperLetters_codes])
  also have "\<dots> = (65 \<le> (of_char c :: nat) \<and> (of_char c :: nat) < 91)"
    by (simp only: set_upt atLeastLessThan_iff)
  also have "\<dots> = (65 \<le> (of_char c :: nat) \<and> (of_char c :: nat) \<le> 90)"
    by arith
  finally show ?thesis .
qed

lemma lowerLetters_range:
  "(c \<in> set lowerLetters) = (97 \<le> (of_char c :: nat) \<and> (of_char c :: nat) \<le> 122)"
proof -
  have "(c \<in> set lowerLetters) = ((of_char c :: nat) \<in> set [97..<123])"
    by (rule mem_by_code [OF lowerLetters_codes])
  also have "\<dots> = (97 \<le> (of_char c :: nat) \<and> (of_char c :: nat) < 123)"
    by (simp only: set_upt atLeastLessThan_iff)
  also have "\<dots> = (97 \<le> (of_char c :: nat) \<and> (of_char c :: nat) \<le> 122)"
    by arith
  finally show ?thesis .
qed

lemma decimalDigits_range:
  "(c \<in> set decimalDigits) = (48 \<le> (of_char c :: nat) \<and> (of_char c :: nat) \<le> 57)"
proof -
  have "(c \<in> set decimalDigits) = ((of_char c :: nat) \<in> set [48..<58])"
    by (rule mem_by_code [OF decimalDigits_codes])
  also have "\<dots> = (48 \<le> (of_char c :: nat) \<and> (of_char c :: nat) < 58)"
    by (simp only: set_upt atLeastLessThan_iff)
  also have "\<dots> = (48 \<le> (of_char c :: nat) \<and> (of_char c :: nat) \<le> 57)"
    by arith
  finally show ?thesis .
qed

lemma isSpace_isWhiteSpace: "isSpace c = isWhiteSpace c"
  using mem_by_code [OF whiteSpaceChars_codes, of c] by (simp add: isSpace_def isWhiteSpace_def)

lemma underscore_code: "(c = CHR ''_'') = ((of_char c :: nat) = 95)"
proof -
  have "(of_char (CHR ''_'') :: nat) = 95" by simp
  then show ?thesis by (metis of_char_eq_iff)
qed

lemma lowerCaseOf_upper:
  "c \<in> set upperLetters \<Longrightarrow> (of_char (lowerCaseOf c) :: nat) = of_char c + 32"
  by (auto simp: upperLetters_def lowerLetters_def lowerCaseOf_def)

lemma lowerCaseOf_other: "c \<notin> set upperLetters \<Longrightarrow> lowerCaseOf c = c"
proof -
  assume "c \<notin> set upperLetters"
  moreover have "length upperLetters = length lowerLetters"
    by (simp add: upperLetters_def lowerLetters_def)
  ultimately have "map_of (zip upperLetters lowerLetters) c = None"
    by (simp add: map_of_zip_is_None)
  then show ?thesis by (simp add: lowerCaseOf_def)
qed

lemma lowerChar_lowerCaseOf:
  "(isWordChar (lowerChar c) \<or> isSpace (lowerChar c)) = wordOrSpace (lowerCaseOf c)
   \<and> (wordOrSpace (lowerCaseOf c) \<longrightarrow> lowerChar c = lowerCaseOf c)"
proof (cases "c \<in> set upperLetters")
  case True
  then have r: "65 \<le> (of_char c :: nat) \<and> (of_char c :: nat) \<le> 90"
    by (simp add: upperLetters_range)
  then have "(of_char (lowerChar c) :: nat) = of_char c + 32"
    by (simp add: lowerChar_def Let_def)
  then have eq: "lowerChar c = lowerCaseOf c"
    using lowerCaseOf_upper [OF True] by (metis of_char_eq_iff)
  have "(of_char (lowerCaseOf c) :: nat) = of_char c + 32"
    by (rule lowerCaseOf_upper [OF True])
  with r have "lowerCaseOf c \<in> set lowerLetters"
    by (simp add: lowerLetters_range)
  then have "wordOrSpace (lowerCaseOf c)" and "isWordChar (lowerCaseOf c)"
    by (simp_all add: wordOrSpace_def isWordChar_def Let_def lowerLetters_range)
  with eq show ?thesis by simp
next
  case False
  then have id: "lowerCaseOf c = c"
    by (rule lowerCaseOf_other)
  have nr: "\<not> (65 \<le> (of_char c :: nat) \<and> (of_char c :: nat) \<le> 90)"
    using False by (simp add: upperLetters_range)
  have ws: "wordOrSpace c = (isWordChar c \<or> isSpace c)"
    by (auto simp: wordOrSpace_def isWordChar_def Let_def isSpace_isWhiteSpace
          upperLetters_range lowerLetters_range decimalDigits_range underscore_code)
  show ?thesis
  proof (cases "192 \<le> (of_char c :: nat) \<and> (of_char c :: nat) \<le> 222 \<and> (of_char c :: nat) \<noteq> 215")
    case latin: True
    then have code: "(of_char (lowerChar c) :: nat) = of_char c + 32"
      by (simp add: lowerChar_def Let_def)
    have "\<not> isWordChar (lowerChar c)" and "\<not> isSpace (lowerChar c)"
      using latin by (simp_all add: isWordChar_def isSpace_def Let_def code)
    moreover have "\<not> isWordChar c" and "\<not> isSpace c"
      using latin by (auto simp: isWordChar_def isSpace_def Let_def)
    ultimately show ?thesis
      by (simp add: id ws)
  next
    case False
    with nr have "lowerChar c = c"
      by (auto simp: lowerChar_def Let_def)
    then show ?thesis by (simp add: id ws)
  qed
qed

lemma strip_lower_eq:
  "stripNonWord (toLowerCase s) = filter wordOrSpace (map lowerCaseOf s)"
proof (induction s)
  case Nil
  show ?case by (simp add: stripNonWord_def toLowerCase_def)
next
  case (Cons c s)
  then have ih: "filter (\<lambda>c. isWordChar c \<or> isSpace c) (map lowerChar s)
                 = filter wordOrSpace (map lowerCaseOf s)"
    by (simp add: stripNonWord_def toLowerCase_def)
  show ?case
    using lowerChar_lowerCaseOf [of c]
    by (auto simp: stripNonWord_def toLowerCase_def ih)
qed

lemma splitWs_no_space:
  assumes "\<forall>c \<in> set s. \<not> isSpace c"
  shows "splitWs s = [s]"
proof -
  have d: "dropWhile (\<lambda>c. \<not> isSpace c) s = []"
    using assms by simp
  show ?thesis
    by (subst splitWs.simps, subst d, simp)
qed

lemma splitWs_at_space:
  assumes "\<forall>c \<in> set cur. \<not> isSpace c" and "isSpace c"
  shows "splitWs (cur @ c # cs) = cur # splitWs (dropWhile isSpace cs)"
proof -
  have d: "dropWhile (\<lambda>c. \<not> isSpace c) (cur @ c # cs) = c # cs"
    using assms by (simp add: dropWhile_append2)
  have t: "takeWhile (\<lambda>c. \<not> isSpace c) (cur @ c # cs) = cur"
    using assms by (simp add: takeWhile_append2)
  show ?thesis
    by (subst splitWs.simps, subst d, subst t, simp)
qed

lemma splitWs_skip_spaces:
  "filter (\<lambda>t. t \<noteq> []) (splitWs (dropWhile isSpace cs)) = filter (\<lambda>t. t \<noteq> []) (splitWs cs)"
proof (cases cs)
  case Nil
  then show ?thesis by simp
next
  case (Cons c cs')
  show ?thesis
  proof (cases "isSpace c")
    case True
    then have "splitWs (c # cs') = [] # splitWs (dropWhile isSpace cs')"
      using splitWs_at_space [of "[]" c cs'] by simp
    with True Cons show ?thesis by simp
  next
    case False
    with Cons show ?thesis by simp
  qed
qed

lemma tokensFrom_splitWs:
  "\<forall>c \<in> set cur. \<not> isSpace c \<Longrightarrow>
   tokensFrom cur s = filter (\<lambda>t. t \<noteq> []) (splitWs (cur @ s))"
proof (induction s arbitrary: cur)
  case Nil
  then show ?case by (simp add: splitWs_no_space)
next
  case (Cons c cs)
  show ?case
  proof (cases "isSpace c")
    case True
    have "tokensFrom [] cs = filter (\<lambda>t. t \<noteq> []) (splitWs cs)"
      using Cons.IH [of "[]"] by simp
    then show ?thesis
      using True Cons.prems
      by (simp add: splitWs_at_space splitWs_skip_spaces isSpace_isWhiteSpace [symmetric])
  next
    case False
    then have "tokensFrom (cur @ [c]) cs = filter (\<lambda>t. t \<noteq> []) (splitWs ((cur @ [c]) @ cs))"
      using Cons.prems by (intro Cons.IH) simp
    with False show ?thesis by (simp add: isSpace_isWhiteSpace [symmetric])
  qed
qed

lemma whitespaceTokens_splitWs:
  "whitespaceTokens s = filter (\<lambda>t. t \<noteq> []) (splitWs s)"
  using tokensFrom_splitWs [of "[]" s] by (simp add: whitespaceTokens_def)

text \<open>
  What \<^verbatim>\<open>split(/\s+/)\<close> yields besides the tokens: an empty first piece when the string is
  empty or starts with white space, and an empty last piece when it ends with white space.
\<close>

lemma last_dropWhile: "dropWhile P xs \<noteq> [] \<Longrightarrow> last (dropWhile P xs) = last xs"
  by (induction xs) (auto split: if_splits)

lemma splitWs_empty_pieces:
  "length (filter (\<lambda>t. t = []) (splitWs s))
   = (if s = [] \<or> isSpace (hd s) then 1 else 0) + (if s \<noteq> [] \<and> isSpace (last s) then 1 else 0)"
proof (induction s rule: splitWs.induct)
  case (1 s)
  show ?case
  proof (cases "dropWhile (\<lambda>c. \<not> isSpace c) s")
    case Nil
    then have ns: "\<forall>c \<in> set s. \<not> isSpace c" by simp
    then have "splitWs s = [s]" by (rule splitWs_no_space)
    moreover have "s \<noteq> [] \<Longrightarrow> \<not> isSpace (hd s) \<and> \<not> isSpace (last s)"
      using ns by simp
    ultimately show ?thesis by auto
  next
    case (Cons c rest)
    define pre where "pre = takeWhile (\<lambda>c. \<not> isSpace c) s"
    define s' where "s' = dropWhile isSpace rest"
    have s: "s = pre @ c # rest"
      using Cons takeWhile_dropWhile_id [of "\<lambda>c. \<not> isSpace c" s] by (simp add: pre_def)
    have pre: "\<forall>x \<in> set pre. \<not> isSpace x"
      by (auto simp: pre_def dest: set_takeWhileD)
    have c: "isSpace c"
      using Cons hd_dropWhile [of "\<lambda>c. \<not> isSpace c" s] by simp
    have split: "splitWs s = pre # splitWs s'"
      unfolding s s'_def using pre c by (rule splitWs_at_space)
    have ih: "length (filter (\<lambda>t. t = []) (splitWs s'))
       = (if s' = [] \<or> isSpace (hd s') then 1 else 0)
         + (if s' \<noteq> [] \<and> isSpace (last s') then 1 else 0)"
      unfolding s'_def using Cons by (rule "1.IH")
    have hd': "s' \<noteq> [] \<Longrightarrow> \<not> isSpace (hd s')"
      unfolding s'_def using hd_dropWhile [of isSpace rest] by simp
    have first: "isSpace (hd s) \<longleftrightarrow> pre = []"
      using pre c by (cases pre) (simp_all add: s)
    have lastE: "s' = [] \<Longrightarrow> isSpace (last s)"
    proof -
      assume "s' = []"
      then have "\<forall>x \<in> set rest. isSpace x" by (simp add: s'_def)
      then have "\<forall>x \<in> set (c # rest). isSpace x" using c by simp
      moreover have "last s = last (c # rest)" by (simp add: s)
      moreover have "last (c # rest) \<in> set (c # rest)" by (rule last_in_set) simp
      ultimately show ?thesis by metis
    qed
    have lastN: "s' \<noteq> [] \<Longrightarrow> last s = last s'"
    proof -
      assume n: "s' \<noteq> []"
      then have "rest \<noteq> []" by (auto simp: s'_def)
      then have "last s = last rest" by (simp add: s)
      also have "\<dots> = last s'" using n last_dropWhile [of isSpace rest] by (simp add: s'_def)
      finally show ?thesis .
    qed
    have "s \<noteq> []" by (simp add: s)
    then show ?thesis
      unfolding split using ih hd' first lastE lastN
      by (cases "s' = []") (auto)
  qed
qed

lemma wordCount_law:
  "length (splitWs s)
   = length (whitespaceTokens s)
     + (if s = [] \<or> isSpace (hd s) then 1 else 0) + (if s \<noteq> [] \<and> isSpace (last s) then 1 else 0)"
proof -
  have "length (splitWs s)
        = length (filter (\<lambda>t. t \<noteq> []) (splitWs s)) + length (filter (\<lambda>t. t = []) (splitWs s))"
    using sum_length_filter_compl [of "\<lambda>t. t \<noteq> []" "splitWs s"] by simp
  then show ?thesis
    by (simp add: whitespaceTokens_splitWs splitWs_empty_pieces)
qed

lemma promptWords_candidates: "promptWords prompt = keywordCandidates prompt"
proof -
  have "(\<lambda>w::string. w \<noteq> [] \<and> \<not> (length w \<le> 3 \<or> w \<in> set stopWords))
        = (\<lambda>w. 3 < length w \<and> w \<notin> set stopWords)"
    by (rule ext) auto
  then show ?thesis
    by (simp add: promptWords_def keywordCandidates_def whitespaceTokens_splitWs
          strip_lower_eq)
qed

text \<open>A candidate is made of small letters, digits and underscores only.\<close>

lemma lowerCaseOf_not_upper: "lowerCaseOf c \<notin> set upperLetters"
proof (cases "c \<in> set upperLetters")
  case True
  then have "65 \<le> (of_char c :: nat)"
    by (simp add: upperLetters_range)
  then have "\<not> (of_char (lowerCaseOf c) :: nat) \<le> 90"
    using lowerCaseOf_upper [OF True] by simp
  then show ?thesis
    by (simp add: upperLetters_range)
next
  case False
  then show ?thesis by (simp add: lowerCaseOf_other)
qed

lemma tokensFrom_chars:
  "t \<in> set (tokensFrom cur s) \<Longrightarrow> c \<in> set t \<Longrightarrow>
   c \<in> set cur \<or> (c \<in> set s \<and> \<not> isWhiteSpace c)"
proof (induction s arbitrary: cur)
  case Nil
  then show ?case by (simp split: if_splits)
next
  case (Cons x xs)
  show ?case
  proof (cases "isWhiteSpace x")
    case True
    with Cons.prems have "t = cur \<or> t \<in> set (tokensFrom [] xs)"
      by (simp split: if_splits)
    then show ?thesis
      using Cons.IH [of "[]"] Cons.prems(2) by auto
  next
    case False
    with Cons.prems have "t \<in> set (tokensFrom (cur @ [x]) xs)"
      by simp
    then have "c \<in> set (cur @ [x]) \<or> (c \<in> set xs \<and> \<not> isWhiteSpace c)"
      using Cons.prems(2) by (rule Cons.IH)
    with False show ?thesis by auto
  qed
qed

lemma keywordCandidates_chars:
  assumes "k \<in> set (keywordCandidates prompt)" and "c \<in> set k"
  shows "c \<in> set keywordChars"
proof -
  from assms(1) have "k \<in> set (tokensFrom [] (filter wordOrSpace (map lowerCaseOf prompt)))"
    by (simp add: keywordCandidates_def whitespaceTokens_def)
  then have "c \<in> set [] \<or> (c \<in> set (filter wordOrSpace (map lowerCaseOf prompt))
               \<and> \<not> isWhiteSpace c)"
    using assms(2) by (rule tokensFrom_chars)
  then have "wordOrSpace c" and "\<not> isWhiteSpace c" and "c \<notin> set upperLetters"
    using lowerCaseOf_not_upper by auto
  then show ?thesis
    by (auto simp: wordOrSpace_def keywordChars_def)
qed

lemma fallbackKeywords_chars: "k \<in> set fallbackKeywords \<Longrightarrow> c \<in> set k \<Longrightarrow> c \<in> set keywordChars"
  by (auto simp: fallbackKeywords_def keywordChars_def lowerLetters_def)

lemma uniqueFrom_set: "set (uniqueFrom seen ws) = set ws - set seen"
  by (induction ws arbitrary: seen) auto

lemma uniqueFrom_distinct: "distinct (uniqueFrom seen ws)"
  by (induction ws arbitrary: seen) (auto simp: uniqueFrom_set)

lemma sortByLengthDesc_sorted:
  "sorted_wrt (\<lambda>a b. length b \<le> length a) (sortByLengthDesc ws)"
proof -
  have "sorted (map (\<lambda>w. - int (length w)) (sortByLengthDesc ws))"
    by (simp add: sortByLengthDesc_def)
  then show ?thesis
    by (simp add: sorted_wrt_map)
qed

lemma uniqueWords_set: "set (uniqueWords prompt) = set (keywordCandidates prompt)"
  by (simp add: uniqueWords_def sortByLengthDesc_def uniqueFrom_set promptWords_candidates)

lemma uniqueWords_distinct: "distinct (uniqueWords prompt)"
  by (simp add: uniqueWords_def sortByLengthDesc_def uniqueFrom_distinct)

lemma uniqueWords_sorted: "sorted_wrt (\<lambda>a b. length b \<le> length a) (uniqueWords prompt)"
  by (simp add: uniqueWords_def sortByLengthDesc_sorted)

lemma uniqueWords_length: "length (uniqueWords prompt) = card (set (keywordCandidates prompt))"
  using distinct_card [OF uniqueWords_distinct, of prompt] by (simp add: uniqueWords_set)

lemma uniqueWords_empty: "uniqueWords prompt = [] \<longleftrightarrow> keywordCandidates prompt = []"
  using uniqueWords_set [of prompt] by (metis set_empty)

lemma take_sorted_dominates:
  assumes "sorted_wrt R xs" and "distinct xs"
    and "w \<in> set xs - set (take n xs)" and "k \<in> set (take n xs)"
  shows "R k w"
proof -
  have "xs = take n xs @ drop n xs" by simp
  then have s: "sorted_wrt R (take n xs @ drop n xs)" using assms(1) by simp
  have "w \<in> set (drop n xs)"
    using assms(3) by (metis DiffD1 DiffD2 UnE append_take_drop_id set_append)
  moreover from s have "\<forall>x \<in> set (take n xs). \<forall>y \<in> set (drop n xs). R x y"
    unfolding sorted_wrt_append by blast
  ultimately show ?thesis
    using assms(4) by blast
qed


section \<open>Keyword extraction: the claims\<close>

text \<open>
  Claim C6. For every prompt, \<^const>\<open>extractKeywordsSimple\<close> returns the first three
  entries of the candidates, deduplicated and sorted by descending length, where the
  candidates are as \<^const>\<open>keywordCandidates\<close> spells them out: the prompt is lower-cased,
  stripped of every character that is neither a word character nor white space, and split
  on white space, and the tokens of length at most 3 and the stop words are dropped. When
  there is no candidate the result is the fixed triple \<^const>\<open>fallbackKeywords\<close>. So the
  result has between 1 and 3 entries, and every entry is made of small letters, digits and
  underscores only: no capital and no punctuation mark survives. When there is a
  candidate, the entries are distinct candidates, in order of descending length, there are
  as many as there are distinct candidates (up to 3), and no candidate left out is longer
  than an entry. The result is a function of the two arguments only.
\<close>

theorem extractKeywordsSimple_spec:
  "(let R = extractKeywordsSimple prompt contentType; C = keywordCandidates prompt
    in R = (if C = [] then fallbackKeywords else take 3 (sortByLengthDesc (uniqueFrom [] C)))
       \<and> (C \<noteq> [] \<longrightarrow>
            set R \<subseteq> set C \<and> distinct R \<and> length R = min 3 (card (set C))
            \<and> sorted_wrt (\<lambda>a b. length b \<le> length a) R
            \<and> (\<forall>w \<in> set C - set R. \<forall>k \<in> set R. length w \<le> length k))
       \<and> 1 \<le> length R \<and> length R \<le> 3
       \<and> (\<forall>k \<in> set R. \<forall>c \<in> set k. c \<in> set keywordChars))"
proof (cases "keywordCandidates prompt = []")
  case True
  then have "uniqueWords prompt = []"
    by (simp add: uniqueWords_empty)
  then have res: "extractKeywordsSimple prompt contentType = fallbackKeywords"
    by (simp add: extractKeywordsSimple_def)
  have chars: "\<forall>k \<in> set fallbackKeywords. \<forall>c \<in> set k. c \<in> set keywordChars"
    using fallbackKeywords_chars by blast
  have "length fallbackKeywords = 3"
    by (simp add: fallbackKeywords_def)
  with True chars show ?thesis
    unfolding Let_def res by simp
next
  case False
  define R where "R = take 3 (uniqueWords prompt)"
  have ne: "uniqueWords prompt \<noteq> []"
    using False by (simp add: uniqueWords_empty)
  then have len: "0 < length R"
    by (cases "uniqueWords prompt") (simp_all add: R_def)
  then have res: "extractKeywordsSimple prompt contentType = R"
    by (simp add: extractKeywordsSimple_def R_def)
  have pipe: "R = take 3 (sortByLengthDesc (uniqueFrom [] (keywordCandidates prompt)))"
    by (simp add: R_def uniqueWords_def promptWords_candidates)
  have sub: "set R \<subseteq> set (keywordCandidates prompt)"
    using set_take_subset [of 3 "uniqueWords prompt"] by (simp add: R_def uniqueWords_set)
  have dist: "distinct R"
    by (simp add: R_def uniqueWords_distinct)
  have card: "length R = min 3 (card (set (keywordCandidates prompt)))"
    by (simp add: R_def uniqueWords_length min.commute)
  have sorted: "sorted_wrt (\<lambda>a b. length b \<le> length a) R"
    unfolding R_def by (rule sorted_wrt_take) (rule uniqueWords_sorted)
  have dom: "\<forall>w \<in> set (keywordCandidates prompt) - set R. \<forall>k \<in> set R. length w \<le> length k"
  proof (intro ballI)
    fix w k
    assume "w \<in> set (keywordCandidates prompt) - set R" and "k \<in> set R"
    then have "w \<in> set (uniqueWords prompt) - set (take 3 (uniqueWords prompt))"
      and "k \<in> set (take 3 (uniqueWords prompt))"
      by (simp_all add: R_def uniqueWords_set)
    then show "length w \<le> length k"
      by (rule take_sorted_dominates [OF uniqueWords_sorted uniqueWords_distinct])
  qed
  have bound: "1 \<le> length R \<and> length R \<le> 3"
    using ne by (cases "uniqueWords prompt") (simp_all add: R_def)
  have chars: "\<forall>k \<in> set R. \<forall>c \<in> set k. c \<in> set keywordChars"
    using sub keywordCandidates_chars by blast
  show ?thesis
    unfolding Let_def res
    using False pipe sub dist card sorted dom bound chars by simp
qed

theorem extractKeywordsSimple_spec_witness:
  "keywordCandidates ''write the blog'' = []
   \<and> extractKeywordsSimple ''write the blog'' None = [''professional'', ''business'', ''content'']
   \<and> keywordCandidates ''Machine-Learning for HOSPITALS, explained!''
       = [''machinelearning'', ''hospitals'', ''explained'']
   \<and> extractKeywordsSimple ''Machine-Learning for HOSPITALS, explained!'' (Some ''article'')
       = [''machinelearning'', ''hospitals'', ''explained'']
   \<and> keywordCandidates ''Write about AI in healthcare systems'' \<noteq> []
   \<and> (let R = extractKeywordsSimple ''Write about AI in healthcare systems'' (Some ''article'');
           C = keywordCandidates ''Write about AI in healthcare systems''
       in set R \<subseteq> set C \<and> distinct R \<and> length R = min 3 (card (set C))
          \<and> sorted_wrt (\<lambda>a b. length b \<le> length a) R
          \<and> (\<forall>w \<in> set C - set R. \<forall>k \<in> set R. length w \<le> length k)
          \<and> 1 \<le> length R \<and> length R \<le> 3
          \<and> (\<forall>k \<in> set R. \<forall>c \<in> set k. c \<in> set keywordChars))"
proof -
  have none: "keywordCandidates ''write the blog'' = []"
    by code_simp
  have some: "keywordCandidates ''Write about AI in healthcare systems'' \<noteq> []"
    by code_simp
  have caps: "keywordCandidates ''Machine-Learning for HOSPITALS, explained!''
              = [''machinelearning'', ''hospitals'', ''explained'']"
    by code_simp
  have ranked: "take 3 (sortByLengthDesc (uniqueFrom []
                  [''machinelearning'', ''hospitals'', ''explained'']))
                = [''machinelearning'', ''hospitals'', ''explained'']"
    by code_simp
  have fb: "extractKeywordsSimple ''write the blog'' None = fallbackKeywords"
    using none extractKeywordsSimple_spec [of "''write the blog''" None]
    unfolding Let_def by simp
  have "extractKeywordsSimple ''Machine-Learning for HOSPITALS, explained!'' (Some ''article'')
        = (if keywordCandidates ''Machine-Learning for HOSPITALS, explained!'' = []
           then fallbackKeywords
           else take 3 (sortByLengthDesc (uniqueFrom []
                  (keywordCandidates ''Machine-Learning for HOSPITALS, explained!''))))"
    using extractKeywordsSimple_spec
            [of "''Machine-Learning for HOSPITALS, explained!''" "Some ''article''"]
    unfolding Let_def by (rule conjunct1)
  then have lowered: "extractKeywordsSimple ''Machine-Learning for HOSPITALS, explained!''
                        (Some ''article'')
                      = [''machinelearning'', ''hospitals'', ''explained'']"
    unfolding caps ranked by simp
  have props:
    "set (extractKeywordsSimple ''Write about AI in healthcare systems'' (Some ''article''))
       \<subseteq> set (keywordCandidates ''Write about AI in healthcare systems'')
     \<and> distinct (extractKeywordsSimple ''Write about AI in healthcare systems'' (Some ''article''))
     \<and> length (extractKeywordsSimple ''Write about AI in healthcare systems'' (Some ''article''))
         = min 3 (card (set (keywordCandidates ''Write about AI in healthcare systems'')))
     \<and> sorted_wrt (\<lambda>a b. length b \<le> length a)
           (extractKeywordsSimple ''Write about AI in healthcare systems'' (Some ''article''))
     \<and> (\<forall>w \<in> set (keywordCandidates ''Write about AI in healthcare systems'')
               - set (extractKeywordsSimple ''Write about AI in healthcare systems'' (Some ''article'')).
          \<forall>k \<in> set (extractKeywordsSimple ''Write about AI in healthcare systems'' (Some ''article'')).
            length w \<le> length k)
     \<and> 1 \<le> length (extractKeywordsSimple ''Write about AI in healthcare systems'' (Some ''article''))
     \<and> length (extractKeywordsSimple ''Write about AI in healthcare systems'' (Some ''article'')) \<le> 3
     \<and> (\<forall>k \<in> set (extractKeywordsSimple ''Write about AI in healthcare systems'' (Some ''article'')).
          \<forall>c \<in> set k. c \<in> set keywordChars)"
    using some
      extractKeywordsSimple_spec [of "''Write about AI in healthcare systems''" "Some ''article''"]
    unfolding Let_def by blast
  show ?thesis
    unfolding Let_def using none some caps lowered fb [unfolded fallbackKeywords_def] props
    by blast
qed

text \<open>
  Claim C10. In the main route the keywords do not depend on the content type: for two
  content types the same prompt gives the same ordered list, which is the fixed triple
  \<^const>\<open>fallbackKeywords\<close> when no word of the prompt survives the filter and the first
  three of the sorted unique words otherwise. \<^const>\<open>extractImageKeywords\<close>, which
  hands its arguments on, ignores the generated content as well.
\<close>

theorem extractKeywordsSimple_ignores_contentType:
  "extractKeywordsSimple prompt contentType = extractKeywordsSimple prompt contentType'
   \<and> extractImageKeywords prompt contentType generated
       = extractImageKeywords prompt contentType' generated'
   \<and> extractKeywordsSimple prompt contentType
       = (if promptWords prompt = [] then fallbackKeywords else take 3 (uniqueWords prompt))"
proof -
  have "(take 3 (uniqueWords prompt) = []) = (promptWords prompt = [])"
    using uniqueWords_empty [of prompt]
    by (cases "uniqueWords prompt") (simp_all add: promptWords_candidates)
  then show ?thesis
    by (simp add: extractKeywordsSimple_def extractImageKeywords_def)
qed

theorem extractKeywordsSimple_ignores_contentType_witness:
  "extractKeywordsSimple ''Write about AI in healthcare systems'' (Some ''article'')
     = extractKeywordsSimple ''Write about AI in healthcare systems'' (Some ''email'')
   \<and> extractKeywordsSimple ''write the blog'' (Some ''blog'') = extractKeywordsSimple ''write the blog'' None"
  using extractKeywordsSimple_ignores_contentType
          [of "''Write about AI in healthcare systems''" "Some ''article''" "Some ''email''"]
        extractKeywordsSimple_ignores_contentType [of "''write the blog''" "Some ''blog''" None]
  by simp

section \<open>Properties of the image sourcing\<close>

lemma digitChar_inj: "d < 10 \<Longrightarrow> d' < 10 \<Longrightarrow> digitChar d = digitChar d' \<Longrightarrow> d = d'"
proof -
  assume a: "d < 10" "d' < 10" and eq: "digitChar d = digitChar d'"
  from eq have "(of_char (digitChar d) :: nat) = of_char (digitChar d')" by simp
  with a show ?thesis by (simp add: digitChar_def)
qed

lemma digitChar_not_amp: "d < 10 \<Longrightarrow> digitChar d \<noteq> CHR ''&''"
proof
  assume a: "d < 10" and eq: "digitChar d = CHR ''&''"
  from eq have "(of_char (digitChar d) :: nat) = of_char (CHR ''&'')" by simp
  with a show False by (simp add: digitChar_def)
qed

lemma showNat_not_Nil: "showNat n \<noteq> []"
  by (subst showNat.simps) simp

lemma showNat_no_amp: "ch \<in> set (showNat n) \<Longrightarrow> ch \<noteq> CHR ''&''"
proof (induction n rule: showNat.induct)
  case (1 n)
  show ?case
  proof (cases "n < 10")
    case True
    with "1.prems" have "ch = digitChar n"
      by (subst (asm) showNat.simps) simp
    with True show ?thesis by (simp add: digitChar_not_amp)
  next
    case False
    with "1.prems" have "ch \<in> set (showNat (n div 10)) \<or> ch = digitChar (n mod 10)"
      by (subst (asm) showNat.simps) auto
    moreover have "digitChar (n mod 10) \<noteq> CHR ''&''"
      by (rule digitChar_not_amp) simp
    ultimately show ?thesis
      using False "1.IH" by auto
  qed
qed

lemma showNat_inj: "showNat m = showNat n \<Longrightarrow> m = n"
proof (induction m arbitrary: n rule: showNat.induct)
  case (1 m)
  show ?case
  proof (cases "m < 10")
    case m: True
    show ?thesis
    proof (cases "n < 10")
      case True
      with m "1.prems" show ?thesis
        by (subst (asm) showNat.simps, subst (asm) (2) showNat.simps) (simp add: digitChar_inj)
    next
      case False
      have "showNat m = [digitChar m]" using m by (subst showNat.simps) simp
      moreover have "showNat n = showNat (n div 10) @ [digitChar (n mod 10)]"
        using False by (subst showNat.simps) simp
      ultimately have "showNat (n div 10) = []" using "1.prems" by simp
      then show ?thesis by (simp add: showNat_not_Nil)
    qed
  next
    case m: False
    have sm: "showNat m = showNat (m div 10) @ [digitChar (m mod 10)]"
      using m by (subst showNat.simps) simp
    show ?thesis
    proof (cases "n < 10")
      case True
      then have "showNat n = [digitChar n]" by (subst showNat.simps) simp
      with sm "1.prems" have "showNat (m div 10) = []" by simp
      then show ?thesis by (simp add: showNat_not_Nil)
    next
      case False
      then have "showNat n = showNat (n div 10) @ [digitChar (n mod 10)]"
        by (subst showNat.simps) simp
      with sm "1.prems" have "showNat (m div 10) = showNat (n div 10)"
        and d: "digitChar (m mod 10) = digitChar (n mod 10)"
        by simp_all
      then have "m div 10 = n div 10" using "1.IH" m by simp
      moreover have "m mod 10 = n mod 10" using d by (simp add: digitChar_inj)
      ultimately show ?thesis by (metis div_mult_mod_eq)
    qed
  qed
qed

lemma picsumUrl_inj:
  assumes "picsumUrl i c = picsumUrl i' c'"
  shows "i = i' \<and> c = c'"
proof -
  have tw: "takeWhile (\<lambda>ch. ch \<noteq> CHR ''&'') (showNat a @ ''&t='' @ r) = showNat a" for a r
    using showNat_no_amp [of _ a] by (simp add: takeWhile_append2)
  from assms have eq: "showNat i @ ''&t='' @ showNat c = showNat i' @ ''&t='' @ showNat c'"
    by (simp add: picsumUrl_def)
  then have "takeWhile (\<lambda>ch. ch \<noteq> CHR ''&'') (showNat i @ ''&t='' @ showNat c)
              = takeWhile (\<lambda>ch. ch \<noteq> CHR ''&'') (showNat i' @ ''&t='' @ showNat c')"
    by simp
  then have si: "showNat i = showNat i'"
    by (simp only: tw)
  with eq have "showNat c = showNat c'" by simp
  with si show ?thesis by (simp add: showNat_inj)
qed

lemma padPicsum_eq:
  "length rs \<le> 3 \<Longrightarrow> padPicsum b rs = rs @ map (placeholder b) [length rs..<3]"
proof (induction b rs rule: padPicsum.induct)
  case (1 b rs)
  show ?case
  proof (cases "length rs < 3")
    case True
    then have "padPicsum b rs = padPicsum b (rs @ [placeholder b (length rs)])"
      by (subst padPicsum.simps) (simp add: Let_def placeholder_def)
    also have "\<dots> = (rs @ [placeholder b (length rs)]) @ map (placeholder b) [Suc (length rs)..<3]"
      using "1.IH" [OF True refl refl refl] True by (simp add: placeholder_def)
    also have "\<dots> = rs @ map (placeholder b) [length rs..<3]"
      using True by (simp add: upt_conv_Cons)
    finally show ?thesis .
  next
    case False
    with "1.prems" show ?thesis
      by (subst padPicsum.simps) simp
  qed
qed

lemma searchEach_events: "fst (searchEach search ks) = map UnsplashSearch ks"
  by (induction ks) (simp_all add: split_beta)

lemma searchEach_images:
  "snd (searchEach search ks)
   = map (\<lambda>u. \<lparr>url = u, source = ''unsplash''\<rparr>) (List.map_filter (\<lambda>k. firstResult (search k)) ks)"
proof (induction ks)
  case Nil
  show ?case by (simp add: List.map_filter_simps)
next
  case (Cons k ks)
  then show ?case
    by (cases "search k" rule: firstResult.cases)
       (simp_all add: split_beta List.map_filter_simps)
qed


lemma keywords_length: "length (extractKeywordsSimple p ct) \<le> 3"
  by (simp add: extractKeywordsSimple_def fallbackKeywords_def Let_def)

lemma unsplashHits_length: "length (unsplashHits e ks) \<le> length ks"
  by (simp add: unsplashHits_def List.map_filter_def o_def)

lemma fetchUnsplashImages_eq:
  "fetchUnsplashImages e ks =
     (if falsy (unsplashAccessKey e) then ([], None)
      else (map UnsplashSearch ks,
            if unsplashHits e ks = [] then None
            else Some (map (\<lambda>u. \<lparr>url = u, source = ''unsplash''\<rparr>) (unsplashHits e ks))))"
  using searchEach_events [of "unsplashSearch e" ks] searchEach_images [of "unsplashSearch e" ks]
  by (cases "searchEach (unsplashSearch e) ks")
     (simp add: fetchUnsplashImages_def unsplashHits_def)

lemma generateImageSuggestions_catch:
  "(\<forall>s. v \<noteq> JString s) \<Longrightarrow> generateImageSuggestions e v ct g = ([], finalFallback)"
  by (cases v) (simp_all add: generateImageSuggestions_def)

lemma generateImageSuggestions_eq:
  "generateImageSuggestions e (JString p) ct g =
     (let ks = extractKeywordsSimple p ct;
          hits = unsplashHits e ks;
          rs = map (\<lambda>u. \<lparr>url = u, source = ''unsplash''\<rparr>) hits
               @ map (placeholder (now e)) [length hits..<3]
      in (if falsy (unsplashAccessKey e) then [] else map UnsplashSearch ks,
          \<lparr>images = map url rs, tags = map source rs\<rparr>))"
proof -
  define ks where "ks = extractKeywordsSimple p ct"
  define hits where "hits = unsplashHits e ks"
  have k3: "length ks \<le> 3" by (simp add: ks_def keywords_length)
  then have tk: "take 3 ks = ks" by simp
  have h3: "length hits \<le> 3"
    using unsplashHits_length [of e ks] k3 by (simp add: hits_def)
  have noKey: "falsy (unsplashAccessKey e) \<Longrightarrow> hits = []"
    by (simp add: hits_def unsplashHits_def)
  show ?thesis
    unfolding generateImageSuggestions_def jsValue.case extractImageKeywords_def Let_def
      ks_def [symmetric] tk fetchUnsplashImages_eq hits_def [symmetric]
    using h3 noKey by (auto simp: padPicsum_eq)
qed

section \<open>Properties of the retry loop\<close>

lemma tryModel_done:
  "\<not> attempt < maxRetries \<Longrightarrow> tryModel call maxRetries m attempt = ([], None)"
  by (subst tryModel.simps) simp

lemma tryModel_Text:
  "attempt < maxRetries \<Longrightarrow> call m attempt = Text t \<Longrightarrow>
   tryModel call maxRetries m attempt = ([GenerateContent m], Some t)"
  by (subst tryModel.simps) simp

lemma tryModel_notFound:
  "attempt < maxRetries \<Longrightarrow> call m attempt = Rejects err \<Longrightarrow> isNotFound err \<Longrightarrow>
   tryModel call maxRetries m attempt = ([GenerateContent m], None)"
  by (subst tryModel.simps) (simp add: isNotFound_def)

lemma tryModel_retry:
  assumes "attempt < maxRetries" and "call m attempt = Rejects err" and "\<not> isNotFound err"
  shows "tryModel call maxRetries m attempt =
     (GenerateContent m
        # (if attempt + 1 < maxRetries then [Sleep (baseDelayMs err * (attempt + 1))] else [])
        @ fst (tryModel call maxRetries m (attempt + 1)),
      snd (tryModel call maxRetries m (attempt + 1)))"
proof -
  have lt: "(attempt < maxRetries - 1) = (attempt + 1 < maxRetries)"
    by auto
  show ?thesis
    using assms
    by (subst tryModel.simps) (auto simp: isNotFound_def baseDelayMs_def lt split_beta)
qed

lemma tryModel_all_fail:
  assumes "\<And>a. a < maxRetries \<Longrightarrow> call m a = Rejects (errs m a) \<and> \<not> isNotFound (errs m a)"
  shows "tryModel call maxRetries m attempt =
     (concat (map (\<lambda>a. GenerateContent m
                    # (if a + 1 < maxRetries then [Sleep (baseDelayMs (errs m a) * (a + 1))] else []))
               [attempt..<maxRetries]), None)"
proof (induction "maxRetries - attempt" arbitrary: attempt)
  case 0
  then show ?case by (simp add: tryModel_done)
next
  case (Suc k)
  then have lt: "attempt < maxRetries" and k: "k = maxRetries - (attempt + 1)"
    by simp_all
  have "tryModel call maxRetries m attempt =
     (GenerateContent m
        # (if attempt + 1 < maxRetries then [Sleep (baseDelayMs (errs m attempt) * (attempt + 1))] else [])
        @ fst (tryModel call maxRetries m (attempt + 1)),
      snd (tryModel call maxRetries m (attempt + 1)))"
    using assms [OF lt] lt by (intro tryModel_retry) simp_all
  then show ?case
    using Suc.hyps(1) [OF k] lt by (simp add: upt_conv_Cons)
qed

lemma tryModels_all_fail:
  assumes "\<And>m a. m \<in> set ms \<Longrightarrow> a < maxRetries \<Longrightarrow>
             call m a = Rejects (errs m a) \<and> \<not> isNotFound (errs m a)"
  shows "tryModels call maxRetries ms
         = (concat (map (failedAttempts errs maxRetries) ms), Inl exhausted)"
  using assms
proof (induction ms)
  case Nil
  show ?case by simp
next
  case (Cons m ms)
  have "tryModel call maxRetries m 0 = (failedAttempts errs maxRetries m, None)"
    unfolding failedAttempts_def
    by (rule tryModel_all_fail) (simp add: Cons.prems)
  moreover have "tryModels call maxRetries ms
         = (concat (map (failedAttempts errs maxRetries) ms), Inl exhausted)"
    by (rule Cons.IH) (simp add: Cons.prems)
  ultimately show ?case by simp
qed

lemma failedAttempts_calls:
  "length (filter isCall (failedAttempts errs maxRetries m)) = maxRetries"
proof -
  have "length (filter isCall (concat (map (\<lambda>attempt. GenerateContent m
                    # (if attempt + 1 < maxRetries
                       then [Sleep (baseDelayMs (errs m attempt) * (attempt + 1))]
                       else [])) as))) = length as" for as
    by (induction as) simp_all
  then show ?thesis by (simp add: failedAttempts_def)
qed

lemma all_fail_calls:
  "length (filter isCall (concat (map (failedAttempts errs maxRetries) ms))) = length ms * maxRetries"
  by (induction ms) (simp_all add: failedAttempts_calls)

section \<open>The retry loop: the claims\<close>

lemma notFoundError_class: "isNotFound notFoundError"
  by code_simp

lemma overloadedError_class:
  "\<not> isNotFound overloadedError \<and> baseDelayMs overloadedError = 1000"
  by code_simp

lemma quotaError_class: "\<not> isNotFound quotaError \<and> baseDelayMs quotaError = 2000"
  by code_simp

text \<open>
  Claim C3. A failed call whose error is treated as not-found (status 404, and not a
  rate-limit error) ends the attempts on its model: the inner loop is left after that one
  call, and the outer loop goes on with the next model of the list. With two models, the
  first always failing with such an error and the second failing on its first attempt
  with an error that is retried and succeeding on its second, the loop returns the text of
  the second model after exactly one call to the first model, one failed call to the
  second, the wait, and one successful call to the second.
\<close>

theorem notFound_abandons_model:
  "(attempt < maxRetries \<and> call m attempt = Rejects err \<and> isNotFound err \<longrightarrow>
      tryModel call maxRetries m attempt = ([GenerateContent m], None))
   \<and> (0 < maxRetries \<and> call m 0 = Rejects err \<and> isNotFound err \<longrightarrow>
      tryModels call maxRetries (m # rest)
      = (GenerateContent m # fst (tryModels call maxRetries rest),
         snd (tryModels call maxRetries rest)))
   \<and> (2 \<le> maxRetries \<and> (\<forall>n. call A n = Rejects errA) \<and> isNotFound errA
        \<and> call B 0 = Rejects errB \<and> \<not> isNotFound errB \<and> call B 1 = Text t \<longrightarrow>
      tryModels call maxRetries [A, B]
      = ([GenerateContent A, GenerateContent B, Sleep (baseDelayMs errB), GenerateContent B],
         Inr t))"
proof (intro conjI impI)
  assume "attempt < maxRetries \<and> call m attempt = Rejects err \<and> isNotFound err"
  then show "tryModel call maxRetries m attempt = ([GenerateContent m], None)"
    by (simp add: tryModel_notFound)
next
  assume "0 < maxRetries \<and> call m 0 = Rejects err \<and> isNotFound err"
  then have "tryModel call maxRetries m 0 = ([GenerateContent m], None)"
    by (simp add: tryModel_notFound)
  then show "tryModels call maxRetries (m # rest)
      = (GenerateContent m # fst (tryModels call maxRetries rest),
         snd (tryModels call maxRetries rest))"
    by (simp add: split_beta)
next
  assume a: "2 \<le> maxRetries \<and> (\<forall>n. call A n = Rejects errA) \<and> isNotFound errA
        \<and> call B 0 = Rejects errB \<and> \<not> isNotFound errB \<and> call B 1 = Text t"
  then have A: "tryModel call maxRetries A 0 = ([GenerateContent A], None)"
    by (intro tryModel_notFound [of _ _ _ _ errA]) simp_all
  have B1: "tryModel call maxRetries B (Suc 0) = ([GenerateContent B], Some t)"
    using a by (intro tryModel_Text) simp_all
  have "tryModel call maxRetries B 0 =
     (GenerateContent B
        # (if 0 + 1 < maxRetries then [Sleep (baseDelayMs errB * (0 + 1))] else [])
        @ fst (tryModel call maxRetries B (0 + 1)),
      snd (tryModel call maxRetries B (0 + 1)))"
    using a by (intro tryModel_retry) simp_all
  then have B0: "tryModel call maxRetries B 0
                 = ([GenerateContent B, Sleep (baseDelayMs errB), GenerateContent B], Some t)"
    using a by (simp add: B1)
  show "tryModels call maxRetries [A, B]
      = ([GenerateContent A, GenerateContent B, Sleep (baseDelayMs errB), GenerateContent B],
         Inr t)"
    by (simp add: A B0)
qed

theorem notFound_abandons_model_witness:
  "tryModel (\<lambda>m n. if m = ''gemini-2.0-flash'' then Rejects notFoundError
                     else if n = 1 then Text ''Generated text'' else Rejects overloadedError)
     2 ''gemini-2.0-flash'' 0
   = ([GenerateContent ''gemini-2.0-flash''], None)
   \<and> tryModels (\<lambda>m n. if m = ''gemini-2.0-flash'' then Rejects notFoundError
                     else if n = 1 then Text ''Generated text'' else Rejects overloadedError)
     2 [''gemini-2.0-flash'', ''gemini-1.5-flash-latest'']
   = ([GenerateContent ''gemini-2.0-flash'', GenerateContent ''gemini-1.5-flash-latest'',
       Sleep 1000, GenerateContent ''gemini-1.5-flash-latest''], Inr ''Generated text'')"
proof -
  let ?call = "\<lambda>m n. if m = ''gemini-2.0-flash'' then Rejects notFoundError
                     else if n = (1::nat) then Text ''Generated text'' else Rejects overloadedError"
  have one: "(0::nat) < 2 \<and> ?call ''gemini-2.0-flash'' 0 = Rejects notFoundError
             \<and> isNotFound notFoundError"
    using notFoundError_class by simp
  have two: "2 \<le> (2::nat) \<and> (\<forall>n. ?call ''gemini-2.0-flash'' n = Rejects notFoundError)
        \<and> isNotFound notFoundError
        \<and> ?call ''gemini-1.5-flash-latest'' 0 = Rejects overloadedError
        \<and> \<not> isNotFound overloadedError
        \<and> ?call ''gemini-1.5-flash-latest'' 1 = Text ''Generated text''"
    using notFoundError_class overloadedError_class by simp
  note inst = notFound_abandons_model
    [of 0 2 ?call "''gemini-2.0-flash''" notFoundError "[]" "''gemini-2.0-flash''" notFoundError
        "''gemini-1.5-flash-latest''" overloadedError "''Generated text''"]
  from one inst have a: "tryModel ?call 2 ''gemini-2.0-flash'' 0
                        = ([GenerateContent ''gemini-2.0-flash''], None)"
    by blast
  from two inst
  have "tryModels ?call 2 [''gemini-2.0-flash'', ''gemini-1.5-flash-latest'']
   = ([GenerateContent ''gemini-2.0-flash'', GenerateContent ''gemini-1.5-flash-latest'',
       Sleep (baseDelayMs overloadedError), GenerateContent ''gemini-1.5-flash-latest''],
      Inr ''Generated text'')"
    by blast
  then have b: "tryModels ?call 2 [''gemini-2.0-flash'', ''gemini-1.5-flash-latest'']
   = ([GenerateContent ''gemini-2.0-flash'', GenerateContent ''gemini-1.5-flash-latest'',
       Sleep 1000, GenerateContent ''gemini-1.5-flash-latest''], Inr ''Generated text'')"
    by (simp only: conjunct2 [OF overloadedError_class])
  from a b show ?thesis by (rule conjI)
qed

text \<open>
  Claim C4. When every call fails with an error that is not treated as not-found, the loop
  makes \<open>maxRetries\<close> calls on each model, \<open>length ms * maxRetries\<close> in all, and then
  fails with the exhaustion error. Between two attempts on the same model it waits the
  base delay of the error times \<open>attempt + 1\<close>, as \<^const>\<open>failedAttempts\<close> spells out;
  there is no wait after the last attempt on a model. The same holds for the configured
  list \<^const>\<open>models\<close>.
\<close>

theorem all_models_fail_exhaustion:
  "(\<forall>m \<in> set ms. \<forall>a < maxRetries. call m a = Rejects (errs m a) \<and> \<not> isNotFound (errs m a)) \<longrightarrow>
     tryModels call maxRetries ms
       = (concat (map (failedAttempts errs maxRetries) ms), Inl exhausted)
     \<and> length (filter isCall (fst (tryModels call maxRetries ms))) = length ms * maxRetries
     \<and> (ms = models \<longrightarrow>
          generateWithRetry call maxRetries
          = (failedAttempts errs maxRetries ''gemini-2.5-flash'', Inl exhausted))"
proof
  assume a: "\<forall>m \<in> set ms. \<forall>a < maxRetries. call m a = Rejects (errs m a) \<and> \<not> isNotFound (errs m a)"
  have run: "tryModels call maxRetries ms
       = (concat (map (failedAttempts errs maxRetries) ms), Inl exhausted)"
    by (rule tryModels_all_fail) (simp add: a)
  moreover have "length (filter isCall (fst (tryModels call maxRetries ms))) = length ms * maxRetries"
    by (simp add: run all_fail_calls)
  moreover have "ms = models \<longrightarrow>
          generateWithRetry call maxRetries
          = (failedAttempts errs maxRetries ''gemini-2.5-flash'', Inl exhausted)"
    using run by (auto simp: generateWithRetry_def models_def)
  ultimately show "tryModels call maxRetries ms
       = (concat (map (failedAttempts errs maxRetries) ms), Inl exhausted)
     \<and> length (filter isCall (fst (tryModels call maxRetries ms))) = length ms * maxRetries
     \<and> (ms = models \<longrightarrow>
          generateWithRetry call maxRetries
          = (failedAttempts errs maxRetries ''gemini-2.5-flash'', Inl exhausted))"
    by blast
qed

theorem all_models_fail_exhaustion_witness:
  "tryModels (\<lambda>m n. Rejects quotaError) 3 [''gemini-2.0-flash'', ''gemini-1.5-flash-latest'']
   = ([GenerateContent ''gemini-2.0-flash'', Sleep 2000,
       GenerateContent ''gemini-2.0-flash'', Sleep 4000,
       GenerateContent ''gemini-2.0-flash'',
       GenerateContent ''gemini-1.5-flash-latest'', Sleep 2000,
       GenerateContent ''gemini-1.5-flash-latest'', Sleep 4000,
       GenerateContent ''gemini-1.5-flash-latest''], Inl exhausted)
   \<and> length (filter isCall (fst (tryModels (\<lambda>m n. Rejects quotaError) 3
         [''gemini-2.0-flash'', ''gemini-1.5-flash-latest'']))) = 2 * 3
   \<and> generateWithRetry (\<lambda>m n. Rejects overloadedError) 2
       = ([GenerateContent ''gemini-2.5-flash'', Sleep 1000, GenerateContent ''gemini-2.5-flash''],
          Inl exhausted)"
proof -
  let ?ms = "[''gemini-2.0-flash'', ''gemini-1.5-flash-latest'']"
  have s: "failedAttempts (\<lambda>m n. quotaError) 3 m
           = [GenerateContent m, Sleep 2000, GenerateContent m, Sleep 4000, GenerateContent m]" for m
    using quotaError_class by (simp add: failedAttempts_def upt_conv_Cons)
  have "\<forall>m \<in> set ?ms. \<forall>a < (3::nat). (\<lambda>m n. Rejects quotaError) m a = Rejects ((\<lambda>m n. quotaError) m a)
          \<and> \<not> isNotFound ((\<lambda>m n. quotaError) m a)"
    using quotaError_class by simp
  with all_models_fail_exhaustion [of ?ms 3 "\<lambda>m n. Rejects quotaError" "\<lambda>m n. quotaError"]
  have "tryModels (\<lambda>m n. Rejects quotaError) 3 ?ms
          = (concat (map (failedAttempts (\<lambda>m n. quotaError) 3) ?ms), Inl exhausted)
        \<and> length (filter isCall (fst (tryModels (\<lambda>m n. Rejects quotaError) 3 ?ms)))
            = length ?ms * 3"
    by blast
  then have first: "tryModels (\<lambda>m n. Rejects quotaError) 3 ?ms
   = ([GenerateContent ''gemini-2.0-flash'', Sleep 2000,
       GenerateContent ''gemini-2.0-flash'', Sleep 4000,
       GenerateContent ''gemini-2.0-flash'',
       GenerateContent ''gemini-1.5-flash-latest'', Sleep 2000,
       GenerateContent ''gemini-1.5-flash-latest'', Sleep 4000,
       GenerateContent ''gemini-1.5-flash-latest''], Inl exhausted)
   \<and> length (filter isCall (fst (tryModels (\<lambda>m n. Rejects quotaError) 3 ?ms))) = 2 * 3"
    by (simp only: s list.map concat.simps append.simps list.size) simp
  have s2: "failedAttempts (\<lambda>m n. overloadedError) 2 m
           = [GenerateContent m, Sleep 1000, GenerateContent m]" for m
    using overloadedError_class by (simp add: failedAttempts_def upt_conv_Cons)
  have "\<forall>m \<in> set models. \<forall>a < (2::nat).
          (\<lambda>m n. Rejects overloadedError) m a = Rejects ((\<lambda>m n. overloadedError) m a)
          \<and> \<not> isNotFound ((\<lambda>m n. overloadedError) m a)"
    using overloadedError_class by simp
  with all_models_fail_exhaustion [of models 2 "\<lambda>m n. Rejects overloadedError" "\<lambda>m n. overloadedError"]
  have "generateWithRetry (\<lambda>m n. Rejects overloadedError) 2
          = (failedAttempts (\<lambda>m n. overloadedError) 2 ''gemini-2.5-flash'', Inl exhausted)"
    by blast
  then have second: "generateWithRetry (\<lambda>m n. Rejects overloadedError) 2
       = ([GenerateContent ''gemini-2.5-flash'', Sleep 1000, GenerateContent ''gemini-2.5-flash''],
          Inl exhausted)"
    by (simp only: s2)
  from first second show ?thesis by blast
qed

section \<open>Properties of the handler\<close>

lemma generateWithRetry_Text:
  "0 < maxRetries \<Longrightarrow> call ''gemini-2.5-flash'' 0 = Text t \<Longrightarrow>
   generateWithRetry call maxRetries = ([GenerateContent ''gemini-2.5-flash''], Inr t)"
  by (simp add: generateWithRetry_def models_def tryModel_Text)

lemma tryModel_first_call:
  assumes "attempt < maxRetries"
  shows "\<exists>evs. fst (tryModel call maxRetries m attempt) = GenerateContent m # evs"
proof (cases "call m attempt")
  case (Text t)
  with assms show ?thesis by (simp add: tryModel_Text)
next
  case (Rejects err)
  show ?thesis
  proof (cases "isNotFound err")
    case True
    with assms Rejects show ?thesis by (simp add: tryModel_notFound)
  next
    case False
    with assms Rejects show ?thesis by (simp add: tryModel_retry)
  qed
qed

lemma generateWithRetry_first_call:
  assumes "0 < maxRetries"
  shows "\<exists>evs. fst (generateWithRetry call maxRetries) = GenerateContent ''gemini-2.5-flash'' # evs"
proof -
  obtain evs where "fst (tryModel call maxRetries ''gemini-2.5-flash'' 0)
                    = GenerateContent ''gemini-2.5-flash'' # evs"
    using tryModel_first_call [OF assms] by blast
  then show ?thesis
    by (cases "tryModel call maxRetries ''gemini-2.5-flash'' 0")
       (auto simp: generateWithRetry_def models_def split: option.splits)
qed

lemma handler_400:
  "req_prompt req = None \<or> (\<exists>v. req_prompt req = Some v \<and> \<not> truthy v) \<Longrightarrow>
   handler e req = ([], Status400 ''Prompt is required'')"
  by (auto simp: handler_def split: option.splits)

text \<open>
  The test \<^verbatim>\<open>!prompt\<close> on the values that are not strings: \<^verbatim>\<open>null\<close>, \<^verbatim>\<open>false\<close> and \<^verbatim>\<open>0\<close> are
  rejected like the empty string; every other number, \<^verbatim>\<open>true\<close>, arrays and objects pass.
\<close>

lemma handler_rejects_iff:
  "(handler e req = ([], Status400 ''Prompt is required''))
   = (req_prompt req \<in> {None, Some (JString []), Some (JNumber 0), Some (JBool False), Some JNull})"
proof (cases "req_prompt req")
  case None
  then show ?thesis by (simp add: handler_def)
next
  case (Some v)
  then show ?thesis
    by (cases v)
       (auto simp: handler_def split_beta Let_def split: prod.splits sum.splits)
qed

lemma handler_forward:
  assumes "req_prompt req = Some p" and "truthy p"
  shows "handler e req =
     (case generateWithRetry (generateContent e) 2 of
        (evs, Inl err) \<Rightarrow> (evs, Status500 (failureMessage err))
      | (evs, Inr t) \<Rightarrow>
          (evs @ fst (generateImageSuggestions e p (req_contentType req) t),
           Status200
             \<lparr>content = t, wordCount = length (splitWs t),
              platform = (case req_platform req of
                            None \<Rightarrow> ''standard''
                          | Some pf \<Rightarrow> if pf = [] then ''standard'' else pf),
              body_images = images (snd (generateImageSuggestions e p (req_contentType req) t)),
              imageTypes = tags (snd (generateImageSuggestions e p (req_contentType req) t))\<rparr>))"
  using assms
  by (auto simp: handler_def split_beta Let_def split: prod.splits sum.splits)

lemma handler_200:
  assumes "snd (handler e req) = Status200 b"
  obtains p t where "req_prompt req = Some p" and "truthy p"
    and "snd (generateWithRetry (generateContent e) 2) = Inr t"
    and "content b = t" and "wordCount b = length (splitWs t)"
    and "body_images b = images (snd (generateImageSuggestions e p (req_contentType req) t))"
    and "imageTypes b = tags (snd (generateImageSuggestions e p (req_contentType req) t))"
proof (cases "req_prompt req = None \<or> (\<exists>v. req_prompt req = Some v \<and> \<not> truthy v)")
  case True
  with assms show ?thesis by (simp add: handler_400)
next
  case False
  then obtain p where p: "req_prompt req = Some p" "truthy p"
    by auto
  show ?thesis
  proof (cases "generateWithRetry (generateContent e) 2")
    case (Pair evs r)
    show ?thesis
    proof (cases r)
      case (Inl err)
      with assms Pair p show ?thesis by (simp add: handler_forward)
    next
      case (Inr t)
      with assms Pair p have "b = \<lparr>content = t, wordCount = length (splitWs t),
              platform = (case req_platform req of
                            None \<Rightarrow> ''standard''
                          | Some pf \<Rightarrow> if pf = [] then ''standard'' else pf),
              body_images = images (snd (generateImageSuggestions e p (req_contentType req) t)),
              imageTypes = tags (snd (generateImageSuggestions e p (req_contentType req) t))\<rparr>"
        by (simp add: handler_forward)
      with Pair Inr p that show ?thesis by simp
    qed
  qed
qed

lemma tags_eq:
  "tags (snd (generateImageSuggestions e (JString p) ct g))
   = replicate (length (unsplashHits e (extractKeywordsSimple p ct))) ''unsplash''
     @ replicate (3 - length (unsplashHits e (extractKeywordsSimple p ct))) ''stock''"
  by (simp add: generateImageSuggestions_eq Let_def placeholder_def o_def map_replicate_const)

lemma images_eq:
  "images (snd (generateImageSuggestions e (JString p) ct g))
   = unsplashHits e (extractKeywordsSimple p ct)
     @ map (\<lambda>index. url (placeholder (now e) index))
         [length (unsplashHits e (extractKeywordsSimple p ct))..<3]"
  by (simp add: generateImageSuggestions_eq Let_def o_def)

lemma images_length: "length (images (snd (generateImageSuggestions e v ct g))) = 3"
proof (cases "\<exists>p. v = JString p")
  case True
  then obtain p where "v = JString p" by blast
  then show ?thesis
    using unsplashHits_length [of e "extractKeywordsSimple p ct"] keywords_length [of p ct]
    by (simp add: images_eq)
next
  case False
  then show ?thesis
    by (simp add: generateImageSuggestions_catch finalFallback_def)
qed

lemma tags_length: "length (tags (snd (generateImageSuggestions e v ct g))) = 3"
proof (cases "\<exists>p. v = JString p")
  case True
  then obtain p where "v = JString p" by blast
  then show ?thesis
    using unsplashHits_length [of e "extractKeywordsSimple p ct"] keywords_length [of p ct]
    by (simp add: tags_eq)
next
  case False
  then show ?thesis
    by (simp add: generateImageSuggestions_catch finalFallback_def)
qed

lemma exampleEnv_generate:
  "generateWithRetry (generateContent (exampleEnv reply)) 2
   = ([GenerateContent ''gemini-2.5-flash''], Inr reply)"
  by (rule generateWithRetry_Text) (simp_all add: exampleEnv_def)

lemma exampleEnv_handler:
  assumes "req_prompt req = Some (JString p)" and "p \<noteq> []"
  shows "handler (exampleEnv reply) req =
     ([GenerateContent ''gemini-2.5-flash''],
      Status200
        \<lparr>content = reply, wordCount = length (splitWs reply),
         platform = (case req_platform req of
                       None \<Rightarrow> ''standard''
                     | Some pf \<Rightarrow> if pf = [] then ''standard'' else pf),
         body_images = map (\<lambda>index. url (placeholder 1700000000950 index)) [0, 1, 2],
         imageTypes = [''stock'', ''stock'', ''stock'']\<rparr>)"
proof -
  have noKey: "falsy (unsplashAccessKey (exampleEnv reply))"
    by (simp add: exampleEnv_def falsy_def)
  then have hits: "unsplashHits (exampleEnv reply) ks = []" for ks
    by (simp add: unsplashHits_def)
  have three: "[0..<3] = [0, 1, 2]"
    by (simp add: upt_conv_Cons)
  have rep: "replicate 3 x = [x, x, x]" for x :: string
    by (simp add: numeral_3_eq_3)
  have evs: "fst (generateImageSuggestions (exampleEnv reply) (JString p) ct reply) = []" for ct
    using noKey by (simp add: generateImageSuggestions_eq Let_def)
  have nw: "now (exampleEnv reply) = 1700000000950"
    by (simp add: exampleEnv_def)
  have tr: "truthy (JString p)"
    using assms(2) by simp
  show ?thesis
    unfolding handler_forward [OF assms(1) tr] exampleEnv_generate
    by (simp add: evs images_eq tags_eq hits three nw rep)
qed

lemma upt_3: "[0..<3] = [0, 1, 2]"
  by (simp add: upt_conv_Cons)

lemma replicate_3: "replicate 3 x = [x, x, x]"
  by (simp add: numeral_3_eq_3)

lemma no_hits_tags:
  "unsplashHits e (extractKeywordsSimple p ct) = [] \<Longrightarrow>
   tags (snd (generateImageSuggestions e (JString p) ct g)) = [''stock'', ''stock'', ''stock'']"
  by (simp add: tags_eq replicate_3)

lemma stock_tags_no_hits:
  assumes "tags (snd (generateImageSuggestions e (JString p) ct g)) = [''stock'', ''stock'', ''stock'']"
  shows "unsplashHits e (extractKeywordsSimple p ct) = []"
proof (cases "unsplashHits e (extractKeywordsSimple p ct)")
  case Nil
  then show ?thesis .
next
  case (Cons u us)
  with assms show ?thesis by (simp add: tags_eq)
qed

lemma noKey_tags:
  assumes "falsy (unsplashAccessKey e)"
  shows "tags (snd (generateImageSuggestions e v ct g)) = [''stock'', ''stock'', ''stock'']"
proof (cases "\<exists>p. v = JString p")
  case True
  then obtain p where "v = JString p" by blast
  moreover have "unsplashHits e (extractKeywordsSimple p ct) = []"
    using assms by (simp add: unsplashHits_def)
  ultimately show ?thesis by (simp add: no_hits_tags)
next
  case False
  then show ?thesis
    by (simp add: generateImageSuggestions_catch finalFallback_def)
qed

lemma placeholders_distinct:
  "distinct (map (\<lambda>index. picsumUrl (((b + index * 100) mod 1000) + 1) (b + index)) [0, 1, 2])"
  using picsumUrl_inj [of "((b + 0 * 100) mod 1000) + 1" "b + 0" "((b + 1 * 100) mod 1000) + 1" "b + 1"]
    picsumUrl_inj [of "((b + 0 * 100) mod 1000) + 1" "b + 0" "((b + 2 * 100) mod 1000) + 1" "b + 2"]
    picsumUrl_inj [of "((b + 1 * 100) mod 1000) + 1" "b + 1" "((b + 2 * 100) mod 1000) + 1" "b + 2"]
  by auto

lemma digitChar_values:
  "digitChar 0 = CHR ''0'' \<and> digitChar (Suc 0) = CHR ''1'' \<and> digitChar 2 = CHR ''2''
   \<and> digitChar 3 = CHR ''3'' \<and> digitChar 4 = CHR ''4'' \<and> digitChar 5 = CHR ''5''
   \<and> digitChar 6 = CHR ''6'' \<and> digitChar 7 = CHR ''7'' \<and> digitChar 8 = CHR ''8''
   \<and> digitChar 9 = CHR ''9''"
  by code_simp

lemma example_urls:
  "picsumUrl 951 1700000000950 = ''https://picsum.photos/800/600?random=951&t=1700000000950''
   \<and> picsumUrl 51 1700000000951 = ''https://picsum.photos/800/600?random=51&t=1700000000951''
   \<and> picsumUrl 151 1700000000952 = ''https://picsum.photos/800/600?random=151&t=1700000000952''"
  by (simp add: picsumUrl_def showNat.simps digitChar_values)

section \<open>The handler and the image sourcing: the claims\<close>

text \<open>
  Claim C1, as the code has it. The handler tests \<^verbatim>\<open>!prompt\<close>: a request whose prompt is
  absent or the empty string gets the 400 response \<^verbatim>\<open>{error: "Prompt is required"}\<close> and
  causes no external call. Every other prompt passes the test: the first thing the
  handler does is a call to the text provider, and it does not answer 400.
\<close>

theorem handler_prompt_validation:
  "(req_prompt req = None \<or> req_prompt req = Some (JString []) \<longrightarrow>
      handler e req = ([], Status400 ''Prompt is required''))
   \<and> (\<forall>p. req_prompt req = Some (JString p) \<and> p \<noteq> [] \<longrightarrow>
        (\<exists>evs. fst (handler e req) = GenerateContent ''gemini-2.5-flash'' # evs)
        \<and> (\<forall>msg. snd (handler e req) \<noteq> Status400 msg))"
proof (intro conjI impI allI)
  assume "req_prompt req = None \<or> req_prompt req = Some (JString [])"
  then have "req_prompt req = None \<or> (\<exists>v. req_prompt req = Some v \<and> \<not> truthy v)"
    by auto
  then show "handler e req = ([], Status400 ''Prompt is required'')"
    by (rule handler_400)
next
  fix p
  assume "req_prompt req = Some (JString p) \<and> p \<noteq> []"
  then have h: "handler e req =
     (case generateWithRetry (generateContent e) 2 of
        (evs, Inl err) \<Rightarrow> (evs, Status500 (failureMessage err))
      | (evs, Inr t) \<Rightarrow>
          (evs @ fst (generateImageSuggestions e (JString p) (req_contentType req) t),
           Status200
             \<lparr>content = t, wordCount = length (splitWs t),
              platform = (case req_platform req of
                            None \<Rightarrow> ''standard''
                          | Some pf \<Rightarrow> if pf = [] then ''standard'' else pf),
              body_images =
                images (snd (generateImageSuggestions e (JString p) (req_contentType req) t)),
              imageTypes =
                tags (snd (generateImageSuggestions e (JString p) (req_contentType req) t))\<rparr>))"
    by (intro handler_forward) simp_all
  obtain evs where "fst (generateWithRetry (generateContent e) 2)
                    = GenerateContent ''gemini-2.5-flash'' # evs"
    using generateWithRetry_first_call [of 2 "generateContent e"] by auto
  then show "\<exists>evs. fst (handler e req) = GenerateContent ''gemini-2.5-flash'' # evs"
    unfolding h
    by (cases "generateWithRetry (generateContent e) 2") (auto split: sum.splits)
  fix msg
  show "snd (handler e req) \<noteq> Status400 msg"
    unfolding h
    by (cases "generateWithRetry (generateContent e) 2") (auto split: sum.splits)
qed

theorem handler_prompt_validation_witness:
  "handler (exampleEnv ''AI helps'') (exampleRequest\<lparr>req_prompt := None\<rparr>)
     = ([], Status400 ''Prompt is required'')
   \<and> handler (exampleEnv ''AI helps'') (exampleRequest\<lparr>req_prompt := Some (JString [])\<rparr>)
     = ([], Status400 ''Prompt is required'')
   \<and> (\<exists>evs. fst (handler (exampleEnv ''AI helps'') exampleRequest)
               = GenerateContent ''gemini-2.5-flash'' # evs)
   \<and> snd (handler (exampleEnv ''AI helps'') exampleRequest) \<noteq> Status400 ''Prompt is required''"
proof -
  have p: "req_prompt exampleRequest = Some (JString ''Write about AI in healthcare'')
           \<and> ''Write about AI in healthcare'' \<noteq> []"
    by (simp add: exampleRequest_def)
  show ?thesis
    using handler_prompt_validation [of "exampleRequest\<lparr>req_prompt := None\<rparr>" "exampleEnv ''AI helps''"]
      handler_prompt_validation
        [of "exampleRequest\<lparr>req_prompt := Some (JString [])\<rparr>" "exampleEnv ''AI helps''"]
      handler_prompt_validation [of exampleRequest "exampleEnv ''AI helps''"] p
    by simp
qed

text \<open>
  A prompt of three spaces is white space only, and it is not rejected: the text provider
  is called and the response is not the 400 response.
\<close>

theorem whitespace_prompt_counterexample:
  "trim ''   '' = []
   \<and> fst (handler (exampleEnv ''AI helps'') (exampleRequest\<lparr>req_prompt := Some (JString ''   '')\<rparr>))
       = [GenerateContent ''gemini-2.5-flash'']
   \<and> snd (handler (exampleEnv ''AI helps'') (exampleRequest\<lparr>req_prompt := Some (JString ''   '')\<rparr>))
       \<noteq> Status400 ''Prompt is required''"
proof -
  have "trim ''   '' = []" by code_simp
  moreover have "req_prompt (exampleRequest\<lparr>req_prompt := Some (JString ''   '')\<rparr>) = Some (JString ''   '')"
    by simp
  then have "handler (exampleEnv ''AI helps'') (exampleRequest\<lparr>req_prompt := Some (JString ''   '')\<rparr>)
             = ([GenerateContent ''gemini-2.5-flash''],
      Status200
        \<lparr>content = ''AI helps'', wordCount = length (splitWs ''AI helps''),
         platform = (case req_platform (exampleRequest\<lparr>req_prompt := Some (JString ''   '')\<rparr>) of
                       None \<Rightarrow> ''standard''
                     | Some pf \<Rightarrow> if pf = [] then ''standard'' else pf),
         body_images = map (\<lambda>index. url (placeholder 1700000000950 index)) [0, 1, 2],
         imageTypes = [''stock'', ''stock'', ''stock'']\<rparr>)"
    by (rule exampleEnv_handler) simp
  ultimately show ?thesis by simp
qed

text \<open>
  Claim C2. In every 200 response the arrays \<^verbatim>\<open>images\<close> and \<^verbatim>\<open>imageTypes\<close> have the same
  length, and that length is between 0 and 3.
\<close>

theorem images_imageTypes_lengths:
  "snd (handler e req) = Status200 b \<Longrightarrow>
   length (body_images b) = length (imageTypes b)
   \<and> 0 \<le> length (body_images b) \<and> length (body_images b) \<le> 3"
proof -
  assume "snd (handler e req) = Status200 b"
  then obtain p t
    where "body_images b = images (snd (generateImageSuggestions e p (req_contentType req) t))"
      and "imageTypes b = tags (snd (generateImageSuggestions e p (req_contentType req) t))"
    by (rule handler_200)
  then show ?thesis
    by (simp add: images_length tags_length)
qed

theorem images_imageTypes_lengths_witness:
  "\<exists>b. snd (handler (exampleEnv ''AI helps'') exampleRequest) = Status200 b
       \<and> length (body_images b) = length (imageTypes b)
       \<and> length (body_images b) \<le> 3"
proof -
  have "req_prompt exampleRequest = Some (JString ''Write about AI in healthcare'')"
    by (simp add: exampleRequest_def)
  then have "handler (exampleEnv ''AI helps'') exampleRequest =
     ([GenerateContent ''gemini-2.5-flash''],
      Status200
        \<lparr>content = ''AI helps'', wordCount = length (splitWs ''AI helps''),
         platform = (case req_platform exampleRequest of
                       None \<Rightarrow> ''standard''
                     | Some pf \<Rightarrow> if pf = [] then ''standard'' else pf),
         body_images = map (\<lambda>index. url (placeholder 1700000000950 index)) [0, 1, 2],
         imageTypes = [''stock'', ''stock'', ''stock'']\<rparr>)"
    by (rule exampleEnv_handler) simp
  then obtain b where b: "snd (handler (exampleEnv ''AI helps'') exampleRequest) = Status200 b"
    by simp
  from images_imageTypes_lengths [OF b] b show ?thesis
    by blast
qed

text \<open>
  Claim C5, as the code has it. The image sourcing returns a result and no error for
  every input: what the keyword extraction throws on a prompt that is not a string is
  caught inside. It always yields exactly 3 images and 3 tags. With no credential, and with
  a provider that never supplies a result, all three are placeholders. When the prompt is
  a string and all three are placeholders, the URL of slot \<open>index\<close> is built from the id
  \<open>((baseTime + index * 100) mod 1000) + 1\<close> and the cache-busting parameter
  \<open>baseTime + index\<close>, and the three URLs are pairwise distinct. When the prompt is not a
  string, no search is made and the result is the fixed one of the \<^verbatim>\<open>catch\<close> block: the
  placeholder URLs with the ids 1, 2 and 3 and no cache-busting parameter, pairwise
  distinct, all tagged \<open>stock\<close>.
\<close>

theorem generateImageSuggestions_never_raises:
  "(let r = snd (generateImageSuggestions e prompt contentType generated); b = now e
    in length (images r) = 3 \<and> length (tags r) = 3
       \<and> (falsy (unsplashAccessKey e) \<longrightarrow> tags r = [''stock'', ''stock'', ''stock''])
       \<and> ((\<forall>k. firstResult (unsplashSearch e k) = None) \<longrightarrow>
             tags r = [''stock'', ''stock'', ''stock''])
       \<and> ((\<exists>s. prompt = JString s) \<and> tags r = [''stock'', ''stock'', ''stock''] \<longrightarrow>
             images r = map (\<lambda>index. picsumUrl (((b + index * 100) mod 1000) + 1) (b + index))
                          [0, 1, 2]
             \<and> distinct (images r))
       \<and> ((\<forall>s. prompt \<noteq> JString s) \<longrightarrow>
             fst (generateImageSuggestions e prompt contentType generated) = []
             \<and> images r = [''https://picsum.photos/800/600?random=1'',
                            ''https://picsum.photos/800/600?random=2'',
                            ''https://picsum.photos/800/600?random=3'']
             \<and> tags r = [''stock'', ''stock'', ''stock'']
             \<and> distinct (images r)))"
proof (cases "\<exists>s. prompt = JString s")
  case True
  then obtain s where s: "prompt = JString s" by blast
  let ?r = "snd (generateImageSuggestions e (JString s) contentType generated)"
  have noKey: "tags ?r = [''stock'', ''stock'', ''stock'']" if "falsy (unsplashAccessKey e)"
    using that by (intro no_hits_tags) (simp add: unsplashHits_def)
  have noResult: "tags ?r = [''stock'', ''stock'', ''stock'']"
    if "\<forall>k. firstResult (unsplashSearch e k) = None"
    using that by (intro no_hits_tags) (simp add: unsplashHits_def List.map_filter_def)
  have stock: "images ?r = map (\<lambda>index. picsumUrl (((now e + index * 100) mod 1000) + 1)
                                   (now e + index)) [0, 1, 2]"
    if "tags ?r = [''stock'', ''stock'', ''stock'']"
    using stock_tags_no_hits [OF that] by (simp add: images_eq upt_3 placeholder_def)
  show ?thesis
    unfolding Let_def s
    using noKey noResult stock placeholders_distinct [of "now e"]
    by (auto simp: images_length tags_length simp del: list.map)
next
  case False
  then have "generateImageSuggestions e prompt contentType generated = ([], finalFallback)"
    by (intro generateImageSuggestions_catch) simp
  with False show ?thesis
    unfolding Let_def by (simp add: finalFallback_def)
qed

theorem generateImageSuggestions_never_raises_witness:
  "falsy (unsplashAccessKey (exampleEnv ''AI helps''))
   \<and> tags (snd (generateImageSuggestions (exampleEnv ''AI helps'')
              (JString ''Write about AI in healthcare'') (Some ''article'') ''AI helps''))
       = [''stock'', ''stock'', ''stock'']
   \<and> images (snd (generateImageSuggestions (exampleEnv ''AI helps'')
              (JString ''Write about AI in healthcare'') (Some ''article'') ''AI helps''))
       = [''https://picsum.photos/800/600?random=951&t=1700000000950'',
          ''https://picsum.photos/800/600?random=51&t=1700000000951'',
          ''https://picsum.photos/800/600?random=151&t=1700000000952'']
   \<and> distinct (images (snd (generateImageSuggestions (exampleEnv ''AI helps'')
              (JString ''Write about AI in healthcare'') (Some ''article'') ''AI helps'')))
   \<and> (\<forall>k. firstResult (unsplashSearch (failingEnv ''AI helps'') k) = None)
   \<and> tags (snd (generateImageSuggestions (failingEnv ''AI helps'')
              (JString ''Write about AI in healthcare'') (Some ''article'') ''AI helps''))
       = [''stock'', ''stock'', ''stock'']
   \<and> length (images (snd (generateImageSuggestions (failingEnv ''AI helps'')
              (JString ''Write about AI in healthcare'') (Some ''article'') ''AI helps''))) = 3
   \<and> generateImageSuggestions (failingEnv ''AI helps'') (JBool True) (Some ''article'') ''AI helps''
       = ([], \<lparr>images = [''https://picsum.photos/800/600?random=1'',
                          ''https://picsum.photos/800/600?random=2'',
                          ''https://picsum.photos/800/600?random=3''],
                tags = [''stock'', ''stock'', ''stock'']\<rparr>)"
proof -
  let ?r = "snd (generateImageSuggestions (exampleEnv ''AI helps'')
              (JString ''Write about AI in healthcare'') (Some ''article'') ''AI helps'')"
  let ?f = "snd (generateImageSuggestions (failingEnv ''AI helps'')
              (JString ''Write about AI in healthcare'') (Some ''article'') ''AI helps'')"
  let ?c = "generateImageSuggestions (failingEnv ''AI helps'') (JBool True) (Some ''article'')
              ''AI helps''"
  have k: "falsy (unsplashAccessKey (exampleEnv ''AI helps''))"
    by (simp add: exampleEnv_def falsy_def)
  have n: "now (exampleEnv ''AI helps'') = 1700000000950"
    by (simp add: exampleEnv_def)
  have str: "\<exists>s. JString ''Write about AI in healthcare'' = JString s"
    by simp
  from k have t: "tags ?r = [''stock'', ''stock'', ''stock'']"
    and "(\<exists>s. JString ''Write about AI in healthcare'' = JString s)
           \<and> tags ?r = [''stock'', ''stock'', ''stock''] \<longrightarrow>
           images ?r = map (\<lambda>index. picsumUrl (((now (exampleEnv ''AI helps'') + index * 100) mod 1000) + 1)
                                  (now (exampleEnv ''AI helps'') + index)) [0, 1, 2]
           \<and> distinct (images ?r)"
    using generateImageSuggestions_never_raises
      [of "exampleEnv ''AI helps''" "JString ''Write about AI in healthcare''" "Some ''article''"
          "''AI helps''"]
    unfolding Let_def by blast+
  with t str have i: "images ?r = map (\<lambda>index. picsumUrl (((1700000000950 + index * 100) mod 1000) + 1)
                                  (1700000000950 + index)) [0, 1, 2]"
    and d: "distinct (images ?r)"
    unfolding n by blast+
  from i have "images ?r = [picsumUrl 951 1700000000950, picsumUrl 51 1700000000951,
                            picsumUrl 151 1700000000952]"
    by simp
  then have u: "images ?r = [''https://picsum.photos/800/600?random=951&t=1700000000950'',
          ''https://picsum.photos/800/600?random=51&t=1700000000951'',
          ''https://picsum.photos/800/600?random=151&t=1700000000952'']"
    by (simp only: example_urls)
  have fails: "\<forall>k. firstResult (unsplashSearch (failingEnv ''AI helps'') k) = None"
    by (simp add: failingEnv_def)
  then have ft: "tags ?f = [''stock'', ''stock'', ''stock'']" and fl: "length (images ?f) = 3"
    using generateImageSuggestions_never_raises
      [of "failingEnv ''AI helps''" "JString ''Write about AI in healthcare''" "Some ''article''"
          "''AI helps''"]
    unfolding Let_def by blast+
  have notString: "\<forall>s. JBool True \<noteq> JString s"
    by simp
  then have "fst ?c = []"
    and "images (snd ?c) = [''https://picsum.photos/800/600?random=1'',
                            ''https://picsum.photos/800/600?random=2'',
                            ''https://picsum.photos/800/600?random=3'']"
    and "tags (snd ?c) = [''stock'', ''stock'', ''stock'']"
    using generateImageSuggestions_never_raises
      [of "failingEnv ''AI helps''" "JBool True" "Some ''article''" "''AI helps''"]
    unfolding Let_def by blast+
  then have c: "?c = ([], \<lparr>images = [''https://picsum.photos/800/600?random=1'',
                          ''https://picsum.photos/800/600?random=2'',
                          ''https://picsum.photos/800/600?random=3''],
                tags = [''stock'', ''stock'', ''stock'']\<rparr>)"
    by (cases ?c) simp
  from k t u d fails ft fl c show ?thesis by blast
qed

text \<open>
  The prompt \<open>12345\<close>, a number, passes the test of the handler; the keyword extraction
  throws on it and the \<^verbatim>\<open>catch\<close> answers: all three images are placeholders, and their URLs
  are not the ones of the formula.
\<close>

theorem non_string_prompt_counterexample:
  "now (exampleEnv ''AI helps'') = 1700000000950
   \<and> tags (snd (generateImageSuggestions (exampleEnv ''AI helps'') (JNumber 12345)
               (Some ''article'') ''AI helps''))
       = [''stock'', ''stock'', ''stock'']
   \<and> images (snd (generateImageSuggestions (exampleEnv ''AI helps'') (JNumber 12345)
               (Some ''article'') ''AI helps''))
       = [''https://picsum.photos/800/600?random=1'',
          ''https://picsum.photos/800/600?random=2'',
          ''https://picsum.photos/800/600?random=3'']
   \<and> images (snd (generateImageSuggestions (exampleEnv ''AI helps'') (JNumber 12345)
               (Some ''article'') ''AI helps''))
       \<noteq> [picsumUrl (((1700000000950 + 0 * 100) mod 1000) + 1) (1700000000950 + 0),
           picsumUrl (((1700000000950 + 1 * 100) mod 1000) + 1) (1700000000950 + 1),
           picsumUrl (((1700000000950 + 2 * 100) mod 1000) + 1) (1700000000950 + 2)]
   \<and> handler (exampleEnv ''AI helps'') (exampleRequest\<lparr>req_prompt := Some (JNumber 12345)\<rparr>)
       = ([GenerateContent ''gemini-2.5-flash''],
          Status200
            \<lparr>content = ''AI helps'', wordCount = 2, platform = ''linkedin'',
             body_images = [''https://picsum.photos/800/600?random=1'',
                            ''https://picsum.photos/800/600?random=2'',
                            ''https://picsum.photos/800/600?random=3''],
             imageTypes = [''stock'', ''stock'', ''stock'']\<rparr>)"
proof -
  have n: "now (exampleEnv ''AI helps'') = 1700000000950"
    by (simp add: exampleEnv_def)
  have g: "generateImageSuggestions (exampleEnv ''AI helps'') (JNumber 12345) ct ''AI helps''
           = ([], finalFallback)" for ct
    by (rule generateImageSuggestions_catch) simp
  have t: "tags (snd (generateImageSuggestions (exampleEnv ''AI helps'') (JNumber 12345)
               (Some ''article'') ''AI helps''))
       = [''stock'', ''stock'', ''stock'']"
    by (simp add: g finalFallback_def)
  have i: "images (snd (generateImageSuggestions (exampleEnv ''AI helps'') (JNumber 12345)
               (Some ''article'') ''AI helps''))
       = [''https://picsum.photos/800/600?random=1'',
          ''https://picsum.photos/800/600?random=2'',
          ''https://picsum.photos/800/600?random=3'']"
    by (simp add: g finalFallback_def)
  have first: "picsumUrl (((1700000000950 + 0 * 100) mod 1000) + 1) (1700000000950 + 0)
               = ''https://picsum.photos/800/600?random=951&t=1700000000950''"
    using example_urls by simp
  have d: "images (snd (generateImageSuggestions (exampleEnv ''AI helps'') (JNumber 12345)
               (Some ''article'') ''AI helps''))
       \<noteq> [picsumUrl (((1700000000950 + 0 * 100) mod 1000) + 1) (1700000000950 + 0),
           picsumUrl (((1700000000950 + 1 * 100) mod 1000) + 1) (1700000000950 + 1),
           picsumUrl (((1700000000950 + 2 * 100) mod 1000) + 1) (1700000000950 + 2)]"
    unfolding i first by simp
  have w: "length (splitWs ''AI helps'') = 2"
    by code_simp
  have "req_prompt (exampleRequest\<lparr>req_prompt := Some (JNumber 12345)\<rparr>) = Some (JNumber 12345)"
    and "truthy (JNumber 12345)"
    by simp_all
  then have h: "handler (exampleEnv ''AI helps'')
                  (exampleRequest\<lparr>req_prompt := Some (JNumber 12345)\<rparr>)
       = ([GenerateContent ''gemini-2.5-flash''],
          Status200
            \<lparr>content = ''AI helps'', wordCount = 2, platform = ''linkedin'',
             body_images = [''https://picsum.photos/800/600?random=1'',
                            ''https://picsum.photos/800/600?random=2'',
                            ''https://picsum.photos/800/600?random=3''],
             imageTypes = [''stock'', ''stock'', ''stock'']\<rparr>)"
    by (simp add: handler_forward exampleEnv_generate g w finalFallback_def exampleRequest_def)
  from n t i d h show ?thesis by (intro conjI)
qed

text \<open>
  Claim C7. The images found by the photo provider come first, in keyword order, and are
  tagged \<open>unsplash\<close>; the slots that remain are filled with placeholders tagged
  \<open>stock\<close>. For a prompt that is not a string there is no search, and all three entries
  are placeholders tagged \<open>stock\<close>. With no credential configured, the \<^verbatim>\<open>imageTypes\<close> of a
  200 response is \<open>[stock, stock, stock]\<close>.
\<close>

theorem image_origin_tags:
  "(let ks = extractKeywordsSimple prompt contentType;
        r = snd (generateImageSuggestions e (JString prompt) contentType generated);
        hits = unsplashHits e ks;
        n = length hits
    in n \<le> 3
       \<and> images r = hits @ map (\<lambda>index. url (placeholder (now e) index)) [n..<3]
       \<and> tags r = replicate n ''unsplash'' @ replicate (3 - n) ''stock''
       \<and> hits = (if falsy (unsplashAccessKey e) then []
                  else List.map_filter (\<lambda>k. firstResult (unsplashSearch e k)) ks))
   \<and> ((\<forall>s. v \<noteq> JString s) \<longrightarrow>
         tags (snd (generateImageSuggestions e v contentType generated))
         = [''stock'', ''stock'', ''stock''])
   \<and> (falsy (unsplashAccessKey e) \<and> snd (handler e req) = Status200 b \<longrightarrow>
         imageTypes b = [''stock'', ''stock'', ''stock''])"
proof -
  have n3: "length (unsplashHits e (extractKeywordsSimple prompt contentType)) \<le> 3"
    using unsplashHits_length [of e "extractKeywordsSimple prompt contentType"]
      keywords_length [of prompt contentType]
    by simp
  have part1: "(let ks = extractKeywordsSimple prompt contentType;
        r = snd (generateImageSuggestions e (JString prompt) contentType generated);
        hits = unsplashHits e ks;
        n = length hits
    in n \<le> 3
       \<and> images r = hits @ map (\<lambda>index. url (placeholder (now e) index)) [n..<3]
       \<and> tags r = replicate n ''unsplash'' @ replicate (3 - n) ''stock''
       \<and> hits = (if falsy (unsplashAccessKey e) then []
                  else List.map_filter (\<lambda>k. firstResult (unsplashSearch e k)) ks))"
    unfolding Let_def using n3 by (simp add: images_eq tags_eq unsplashHits_def)
  have part2: "imageTypes b = [''stock'', ''stock'', ''stock'']"
    if "falsy (unsplashAccessKey e) \<and> snd (handler e req) = Status200 b"
  proof -
    from that obtain p t
      where "imageTypes b = tags (snd (generateImageSuggestions e p (req_contentType req) t))"
      by (auto elim: handler_200)
    moreover have "tags (snd (generateImageSuggestions e p (req_contentType req) t))
                   = [''stock'', ''stock'', ''stock'']"
      using that by (simp add: noKey_tags)
    ultimately show ?thesis by simp
  qed
  have part3: "tags (snd (generateImageSuggestions e v contentType generated))
         = [''stock'', ''stock'', ''stock'']"
    if "\<forall>s. v \<noteq> JString s"
    using that by (simp add: generateImageSuggestions_catch finalFallback_def)
  from part1 part2 part3 show ?thesis by blast
qed

lemma example_keywords:
  "extractKeywordsSimple ''AI in healthcare systems'' (Some ''article'') = [''healthcare'', ''systems'']"
  by code_simp

lemma upt_1_3: "[1..<3] = [1, 2]"
  by (simp add: upt_conv_Cons)

theorem image_origin_tags_witness:
  "images (snd (generateImageSuggestions (unsplashEnv ''AI helps'')
              (JString ''AI in healthcare systems'') (Some ''article'') ''AI helps''))
     = [''https://images.unsplash.com/photo-1'',
        ''https://picsum.photos/800/600?random=51&t=1700000000951'',
        ''https://picsum.photos/800/600?random=151&t=1700000000952'']
   \<and> tags (snd (generateImageSuggestions (unsplashEnv ''AI helps'')
              (JString ''AI in healthcare systems'') (Some ''article'') ''AI helps''))
     = [''unsplash'', ''stock'', ''stock'']
   \<and> tags (snd (generateImageSuggestions (unsplashEnv ''AI helps'') JNull (Some ''article'')
               ''AI helps''))
     = [''stock'', ''stock'', ''stock'']
   \<and> (\<exists>b. snd (handler (exampleEnv ''AI helps'') exampleRequest) = Status200 b
           \<and> imageTypes b = [''stock'', ''stock'', ''stock''])"
proof -
  let ?e = "unsplashEnv ''AI helps''"
  let ?r = "snd (generateImageSuggestions ?e (JString ''AI in healthcare systems'') (Some ''article'') ''AI helps'')"
  let ?hits = "unsplashHits ?e (extractKeywordsSimple ''AI in healthcare systems'' (Some ''article''))"
  have hits: "?hits = [''https://images.unsplash.com/photo-1'']"
    by (simp add: example_keywords unsplashHits_def unsplashEnv_def falsy_def
          List.map_filter_simps)
  have n: "now ?e = 1700000000950"
    by (simp add: unsplashEnv_def)
  have all: "(let ks = extractKeywordsSimple ''AI in healthcare systems'' (Some ''article'');
        r = ?r; hits = unsplashHits ?e ks; n = length hits
    in n \<le> 3
       \<and> images r = hits @ map (\<lambda>index. url (placeholder (now ?e) index)) [n..<3]
       \<and> tags r = replicate n ''unsplash'' @ replicate (3 - n) ''stock''
       \<and> hits = (if falsy (unsplashAccessKey ?e) then []
                  else List.map_filter (\<lambda>k. firstResult (unsplashSearch ?e k)) ks))"
    by (rule conjunct1 [OF image_origin_tags
          [of "''AI in healthcare systems''" "Some ''article''" ?e "''AI helps''"]])
  have nonString: "tags (snd (generateImageSuggestions ?e JNull (Some ''article'') ''AI helps''))
                   = [''stock'', ''stock'', ''stock'']"
  proof -
    have ns: "\<forall>s. JNull \<noteq> JString s" by simp
    show ?thesis
      by (rule mp [OF conjunct1 [OF conjunct2 [OF image_origin_tags]] ns])
  qed
  have im: "images ?r = ?hits @ map (\<lambda>index. url (placeholder (now ?e) index)) [length ?hits..<3]"
    using all unfolding Let_def by (rule conjunct1 [OF conjunct2])
  have tg: "tags ?r = replicate (length ?hits) ''unsplash'' @ replicate (3 - length ?hits) ''stock''"
    using all unfolding Let_def by (rule conjunct1 [OF conjunct2 [OF conjunct2]])
  have l: "length [''https://images.unsplash.com/photo-1''] = (1::nat)"
    by simp
  have p1: "url (placeholder 1700000000950 1) = picsumUrl 51 1700000000951"
    by (simp add: placeholder_def)
  have p2: "url (placeholder 1700000000950 2) = picsumUrl 151 1700000000952"
    by (simp add: placeholder_def)
  from im have "images ?r = [''https://images.unsplash.com/photo-1'',
                picsumUrl 51 1700000000951, picsumUrl 151 1700000000952]"
    unfolding hits n l upt_1_3 by (simp only: list.map p1 p2 append.simps)
  then have i: "images ?r = [''https://images.unsplash.com/photo-1'',
        ''https://picsum.photos/800/600?random=51&t=1700000000951'',
        ''https://picsum.photos/800/600?random=151&t=1700000000952'']"
    by (simp only: example_urls)
  have r2: "replicate (3 - 1) ''stock'' = [''stock'', ''stock'']"
    by (simp add: numeral_2_eq_2)
  from tg have t: "tags ?r = [''unsplash'', ''stock'', ''stock'']"
    unfolding hits l r2 by simp
  have "req_prompt exampleRequest = Some (JString ''Write about AI in healthcare'')"
    by (simp add: exampleRequest_def)
  then have "handler (exampleEnv ''AI helps'') exampleRequest =
     ([GenerateContent ''gemini-2.5-flash''],
      Status200
        \<lparr>content = ''AI helps'', wordCount = length (splitWs ''AI helps''),
         platform = (case req_platform exampleRequest of
                       None \<Rightarrow> ''standard''
                     | Some pf \<Rightarrow> if pf = [] then ''standard'' else pf),
         body_images = map (\<lambda>index. url (placeholder 1700000000950 index)) [0, 1, 2],
         imageTypes = [''stock'', ''stock'', ''stock'']\<rparr>)"
    by (rule exampleEnv_handler) simp
  then have sh: "snd (handler (exampleEnv ''AI helps'') exampleRequest) = Status200
        \<lparr>content = ''AI helps'', wordCount = length (splitWs ''AI helps''),
         platform = (case req_platform exampleRequest of
                       None \<Rightarrow> ''standard''
                     | Some pf \<Rightarrow> if pf = [] then ''standard'' else pf),
         body_images = map (\<lambda>index. url (placeholder 1700000000950 index)) [0, 1, 2],
         imageTypes = [''stock'', ''stock'', ''stock'']\<rparr>"
    by simp
  have k: "falsy (unsplashAccessKey (exampleEnv ''AI helps''))"
    by (simp add: exampleEnv_def falsy_def)
  have ex: "\<exists>b. snd (handler (exampleEnv ''AI helps'') exampleRequest) = Status200 b
           \<and> imageTypes b = [''stock'', ''stock'', ''stock'']"
  proof (intro exI conjI)
    show "snd (handler (exampleEnv ''AI helps'') exampleRequest) = Status200
        \<lparr>content = ''AI helps'', wordCount = length (splitWs ''AI helps''),
         platform = (case req_platform exampleRequest of
                       None \<Rightarrow> ''standard''
                     | Some pf \<Rightarrow> if pf = [] then ''standard'' else pf),
         body_images = map (\<lambda>index. url (placeholder 1700000000950 index)) [0, 1, 2],
         imageTypes = [''stock'', ''stock'', ''stock'']\<rparr>"
      by (rule sh)
    show "imageTypes \<lparr>content = ''AI helps'', wordCount = length (splitWs ''AI helps''),
         platform = (case req_platform exampleRequest of
                       None \<Rightarrow> ''standard''
                     | Some pf \<Rightarrow> if pf = [] then ''standard'' else pf),
         body_images = map (\<lambda>index. url (placeholder 1700000000950 index)) [0, 1, 2],
         imageTypes = [''stock'', ''stock'', ''stock'']\<rparr> = [''stock'', ''stock'', ''stock'']"
      by (rule mp [OF conjunct2 [OF conjunct2 [OF image_origin_tags]] conjI [OF k sh]])
  qed
  from i t nonString ex show ?thesis
    by (intro conjI)
qed

text \<open>
  Claim C8 at a text that ends with a line feed. The handler computes \<^verbatim>\<open>wordCount\<close> as the
  length of \<^verbatim>\<open>text.split(/\s+/)\<close>, which has an empty last piece: the response carries the
  word count 3 for a content of two white-space separated tokens.
\<close>

theorem wordCount_trailing_newline:
  "\<exists>b. snd (handler (exampleEnv (''Hello world'' @ [CHR 0x0A])) exampleRequest) = Status200 b
       \<and> content b = ''Hello world'' @ [CHR 0x0A]
       \<and> wordCount b = 3
       \<and> whitespaceTokens (content b) = [''Hello'', ''world'']"
proof -
  have "req_prompt exampleRequest = Some (JString ''Write about AI in healthcare'')"
    by (simp add: exampleRequest_def)
  then have h: "handler (exampleEnv (''Hello world'' @ [CHR 0x0A])) exampleRequest =
     ([GenerateContent ''gemini-2.5-flash''],
      Status200
        \<lparr>content = ''Hello world'' @ [CHR 0x0A],
         wordCount = length (splitWs (''Hello world'' @ [CHR 0x0A])),
         platform = (case req_platform exampleRequest of
                       None \<Rightarrow> ''standard''
                     | Some pf \<Rightarrow> if pf = [] then ''standard'' else pf),
         body_images = map (\<lambda>index. url (placeholder 1700000000950 index)) [0, 1, 2],
         imageTypes = [''stock'', ''stock'', ''stock'']\<rparr>)"
    by (rule exampleEnv_handler) simp
  have w: "length (splitWs (''Hello world'' @ [CHR 0x0A])) = 3"
    by code_simp
  have t: "whitespaceTokens (''Hello world'' @ [CHR 0x0A]) = [''Hello'', ''world'']"
    by code_simp
  show ?thesis
    unfolding h using w t by simp
qed

text \<open>
  In general the word count of a 200 response is the number of tokens of the content, plus
  one when the content is empty or starts with white space, plus one when it ends with
  white space.
\<close>

lemma handler_wordCount:
  assumes "snd (handler e req) = Status200 b"
  shows "wordCount b
         = length (whitespaceTokens (content b))
           + (if content b = [] \<or> isSpace (hd (content b)) then 1 else 0)
           + (if content b \<noteq> [] \<and> isSpace (last (content b)) then 1 else 0)"
proof -
  from assms obtain p t where "content b = t" and "wordCount b = length (splitWs t)"
    by (rule handler_200)
  then show ?thesis
    using wordCount_law [of t] by simp
qed

section \<open>The version history: the claim\<close>

lemma step_Generate_history:
  "trim (app_prompt s) \<noteq> [] \<Longrightarrow>
   contentHistory (step s (Generate resp d))
   = \<lparr>cv_content = content resp, timestamp = d\<rparr> # contentHistory s"
  by (simp add: generate_def generate_next_def addToHistory_def)

lemma step_SaveEdit_history:
  "contentHistory (step s (SaveEdit d))
   = \<lparr>cv_content = editableContent s, timestamp = d\<rparr> # contentHistory s"
  by (simp add: saveEdit_def addToHistory_def)

lemma step_keeps:
  assumes "keepsHistory a" and "trim (app_prompt s) \<noteq> []"
  shows "trim (app_prompt (step s a)) \<noteq> []
     \<and> map timestamp (contentHistory (step s a))
         = (if storesVersion a then [storedAt a] else []) @ map timestamp (contentHistory s)
     \<and> currentVersion (step s a) = (if storesVersion a then 0 else currentVersion s)"
  using assms
  by (cases a)
     (simp_all add: generate_def generate_next_def addToHistory_def saveEdit_def
        approveContent_def startEditing_def cancelEdit_def)

lemma run_snoc: "run s (acts @ [a]) = step (run s acts) a"
  by (simp add: run_def)

lemma run_keeps:
  assumes "\<forall>a \<in> set acts. keepsHistory a" and "trim (app_prompt s) \<noteq> []"
  shows "trim (app_prompt (run s acts)) \<noteq> []
     \<and> map timestamp (contentHistory (run s acts))
         = rev (map storedAt (filter storesVersion acts)) @ map timestamp (contentHistory s)
     \<and> currentVersion (run s acts)
         = (if filter storesVersion acts = [] then currentVersion s else 0)"
  using assms(1)
proof (induction acts rule: rev_induct)
  case Nil
  show ?case by (simp add: run_def assms(2))
next
  case (snoc a acts)
  then have ih: "trim (app_prompt (run s acts)) \<noteq> []
     \<and> map timestamp (contentHistory (run s acts))
         = rev (map storedAt (filter storesVersion acts)) @ map timestamp (contentHistory s)
     \<and> currentVersion (run s acts)
         = (if filter storesVersion acts = [] then currentVersion s else 0)"
    by simp
  have "keepsHistory a" using snoc.prems by simp
  moreover have "trim (app_prompt (run s acts)) \<noteq> []"
    using ih by simp
  ultimately have st: "trim (app_prompt (step (run s acts) a)) \<noteq> []
     \<and> map timestamp (contentHistory (step (run s acts) a))
         = (if storesVersion a then [storedAt a] else []) @ map timestamp (contentHistory (run s acts))
     \<and> currentVersion (step (run s acts) a)
         = (if storesVersion a then 0 else currentVersion (run s acts))"
    by (rule step_keeps)
  show ?case
    unfolding run_snoc using st ih by simp
qed

text \<open>
  Claim C9. A successful generate and a save-edit each put one entry in front of the
  history and leave the older entries as they are. After a sequence of actions without a
  reject, from an empty history, the history has one entry for every generate and
  save-edit of the sequence, the newest first (the times of the entries are the times of
  these actions in reverse), and the current version is 0. A reject empties the draft and
  the history.
\<close>

theorem history_most_recent_first:
  "(trim (app_prompt s) \<noteq> [] \<longrightarrow>
      contentHistory (step s (Generate resp d))
      = \<lparr>cv_content = content resp, timestamp = d\<rparr> # contentHistory s)
   \<and> contentHistory (step s (SaveEdit d))
      = \<lparr>cv_content = editableContent s, timestamp = d\<rparr> # contentHistory s
   \<and> ((\<forall>a \<in> set acts. keepsHistory a) \<and> trim (app_prompt s) \<noteq> []
        \<and> contentHistory s = [] \<and> currentVersion s = 0 \<longrightarrow>
        length (contentHistory (run s acts)) = length (filter storesVersion acts)
        \<and> map timestamp (contentHistory (run s acts))
            = rev (map storedAt (filter storesVersion acts))
        \<and> currentVersion (run s acts) = 0)
   \<and> generatedContent (rejectContent s) = []
   \<and> contentHistory (rejectContent s) = []"
proof -
  have seq: "length (contentHistory (run s acts)) = length (filter storesVersion acts)
        \<and> map timestamp (contentHistory (run s acts))
            = rev (map storedAt (filter storesVersion acts))
        \<and> currentVersion (run s acts) = 0"
    if a: "(\<forall>a \<in> set acts. keepsHistory a) \<and> trim (app_prompt s) \<noteq> []
        \<and> contentHistory s = [] \<and> currentVersion s = 0"
  proof -
    from a have k: "map timestamp (contentHistory (run s acts))
         = rev (map storedAt (filter storesVersion acts)) @ map timestamp (contentHistory s)"
      and c: "currentVersion (run s acts)
         = (if filter storesVersion acts = [] then currentVersion s else 0)"
      using run_keeps [of acts s] by simp_all
    from k a have m: "map timestamp (contentHistory (run s acts))
         = rev (map storedAt (filter storesVersion acts))"
      by simp
    then have "length (map timestamp (contentHistory (run s acts)))
         = length (rev (map storedAt (filter storesVersion acts)))"
      by simp
    then have "length (contentHistory (run s acts)) = length (filter storesVersion acts)"
      by simp
    with m c a show ?thesis by simp
  qed
  have gen: "trim (app_prompt s) \<noteq> [] \<longrightarrow>
      contentHistory (step s (Generate resp d))
      = \<lparr>cv_content = content resp, timestamp = d\<rparr> # contentHistory s"
    using step_Generate_history by blast
  have save: "contentHistory (step s (SaveEdit d))
      = \<lparr>cv_content = editableContent s, timestamp = d\<rparr> # contentHistory s"
    by (rule step_SaveEdit_history)
  have reject: "generatedContent (rejectContent s) = [] \<and> contentHistory (rejectContent s) = []"
    by (simp add: rejectContent_def)
  from gen save seq reject show ?thesis by blast
qed

theorem history_most_recent_first_witness:
  "trim (app_prompt typedPrompt) \<noteq> []
   \<and> contentHistory (run typedPrompt
        [Generate (exampleBody ''First draft'') 1700000000000, StartEditing,
         TypeEdit ''Second draft'', SaveEdit 1700000060000,
         Generate (exampleBody ''Third draft'') 1700000120000])
     = [\<lparr>cv_content = ''Third draft'', timestamp = 1700000120000\<rparr>,
        \<lparr>cv_content = ''Second draft'', timestamp = 1700000060000\<rparr>,
        \<lparr>cv_content = ''First draft'', timestamp = 1700000000000\<rparr>]
   \<and> map timestamp (contentHistory (run typedPrompt
        [Generate (exampleBody ''First draft'') 1700000000000, StartEditing,
         TypeEdit ''Second draft'', SaveEdit 1700000060000,
         Generate (exampleBody ''Third draft'') 1700000120000]))
     = [1700000120000, 1700000060000, 1700000000000]
   \<and> currentVersion (run typedPrompt
        [Generate (exampleBody ''First draft'') 1700000000000, StartEditing,
         TypeEdit ''Second draft'', SaveEdit 1700000060000,
         Generate (exampleBody ''Third draft'') 1700000120000]) = 0"
proof -
  let ?acts = "[Generate (exampleBody ''First draft'') 1700000000000, StartEditing,
         TypeEdit ''Second draft'', SaveEdit 1700000060000,
         Generate (exampleBody ''Third draft'') 1700000120000]"
  have t': "trim ''Write about AI in healthcare'' \<noteq> []"
    by code_simp
  then have t: "trim (app_prompt typedPrompt) \<noteq> []"
    by (simp add: typedPrompt_def)
  have i: "contentHistory typedPrompt = [] \<and> currentVersion typedPrompt = 0"
    by (simp add: typedPrompt_def initialState_def)
  have k: "\<forall>a \<in> set ?acts. keepsHistory a"
    by simp
  have th: "map timestamp (contentHistory (run typedPrompt ?acts))
            = rev (map storedAt (filter storesVersion ?acts))
        \<and> currentVersion (run typedPrompt ?acts) = 0"
    using history_most_recent_first [of typedPrompt _ _ ?acts] t i k by blast
  have r: "rev (map storedAt (filter storesVersion ?acts))
           = [1700000120000, 1700000060000, 1700000000000]"
    by simp
  from th have ts: "map timestamp (contentHistory (run typedPrompt ?acts))
                    = [1700000120000, 1700000060000, 1700000000000]"
    by (simp only: r)
  have h: "contentHistory (run typedPrompt ?acts)
     = [\<lparr>cv_content = ''Third draft'', timestamp = 1700000120000\<rparr>,
        \<lparr>cv_content = ''Second draft'', timestamp = 1700000060000\<rparr>,
        \<lparr>cv_content = ''First draft'', timestamp = 1700000000000\<rparr>]"
    using t'
    by (simp add: run_def generate_def generate_next_def addToHistory_def saveEdit_def
          startEditing_def exampleBody_def typedPrompt_def initialState_def)
  from t h ts th show ?thesis by blast
qed


end
